theory Spec2Isabelle
  imports Complex_Main
begin

section \<open>JavaScript numbers\<close>

text \<open>
  The optimizers compute on JavaScript numbers. The model keeps the three special values
  whose handling decides the control flow of the code (\<open>Infinity\<close>, \<open>-Infinity\<close>,
  \<open>NaN\<close>) and idealises the finite doubles as real numbers: no rounding, no overflow and
  a single zero. The value \<open>undefined\<close>, which the asynchronous line minimizer returns
  as its failure signal, is a separate constructor of \<open>jsval\<close>.
\<close>

datatype jsnum = Num real | PInf | NInf | NaN

datatype jsval = Undefined | Number jsnum

fun js_neg :: "jsnum \<Rightarrow> jsnum" where
  "js_neg (Num a) = Num (- a)"
| "js_neg PInf = NInf"
| "js_neg NInf = PInf"
| "js_neg NaN = NaN"

fun js_add :: "jsnum \<Rightarrow> jsnum \<Rightarrow> jsnum" where
  "js_add NaN b = NaN"
| "js_add a NaN = NaN"
| "js_add (Num a) (Num b) = Num (a + b)"
| "js_add (Num a) PInf = PInf"
| "js_add (Num a) NInf = NInf"
| "js_add PInf (Num b) = PInf"
| "js_add PInf PInf = PInf"
| "js_add PInf NInf = NaN"
| "js_add NInf (Num b) = NInf"
| "js_add NInf NInf = NInf"
| "js_add NInf PInf = NaN"

definition js_sub :: "jsnum \<Rightarrow> jsnum \<Rightarrow> jsnum" where
  "js_sub a b = js_add a (js_neg b)"

fun js_mul :: "jsnum \<Rightarrow> jsnum \<Rightarrow> jsnum" where
  "js_mul NaN b = NaN"
| "js_mul a NaN = NaN"
| "js_mul (Num a) (Num b) = Num (a * b)"
| "js_mul (Num a) PInf = (if 0 < a then PInf else if a < 0 then NInf else NaN)"
| "js_mul (Num a) NInf = (if 0 < a then NInf else if a < 0 then PInf else NaN)"
| "js_mul PInf (Num b) = (if 0 < b then PInf else if b < 0 then NInf else NaN)"
| "js_mul NInf (Num b) = (if 0 < b then NInf else if b < 0 then PInf else NaN)"
| "js_mul PInf PInf = PInf"
| "js_mul PInf NInf = NInf"
| "js_mul NInf PInf = NInf"
| "js_mul NInf NInf = PInf"

text \<open>Division by the (single, positive) zero gives an infinity of the sign of the
  numerator, and \<open>0 / 0\<close> is \<open>NaN\<close>.\<close>

fun js_div :: "jsnum \<Rightarrow> jsnum \<Rightarrow> jsnum" where
  "js_div NaN b = NaN"
| "js_div a NaN = NaN"
| "js_div (Num a) (Num b) =
     (if b \<noteq> 0 then Num (a / b) else if 0 < a then PInf else if a < 0 then NInf else NaN)"
| "js_div (Num a) PInf = Num 0"
| "js_div (Num a) NInf = Num 0"
| "js_div PInf (Num b) = (if 0 \<le> b then PInf else NInf)"
| "js_div NInf (Num b) = (if 0 \<le> b then NInf else PInf)"
| "js_div PInf PInf = NaN"
| "js_div PInf NInf = NaN"
| "js_div NInf PInf = NaN"
| "js_div NInf NInf = NaN"

text \<open>The comparison \<open>a < b\<close>: false as soon as one side is \<open>NaN\<close>.\<close>

fun js_lt :: "jsnum \<Rightarrow> jsnum \<Rightarrow> bool" where
  "js_lt NaN b = False"
| "js_lt a NaN = False"
| "js_lt (Num a) (Num b) = (a < b)"
| "js_lt (Num a) PInf = True"
| "js_lt (Num a) NInf = False"
| "js_lt PInf b = False"
| "js_lt NInf NInf = False"
| "js_lt NInf b = True"

definition js_gt :: "jsnum \<Rightarrow> jsnum \<Rightarrow> bool" where
  "js_gt a b = js_lt b a"

text \<open>Strict equality \<open>a === b\<close> on numbers: \<open>NaN\<close> equals nothing.\<close>

definition js_eq :: "jsnum \<Rightarrow> jsnum \<Rightarrow> bool" where
  "js_eq a b = (a \<noteq> NaN \<and> b \<noteq> NaN \<and> a = b)"

definition js_le :: "jsnum \<Rightarrow> jsnum \<Rightarrow> bool" where
  "js_le a b = (js_lt a b \<or> js_eq a b)"

definition js_isNaN :: "jsnum \<Rightarrow> bool" where
  "js_isNaN a = (a = NaN)"

fun js_isFinite :: "jsnum \<Rightarrow> bool" where
  "js_isFinite (Num a) = True"
| "js_isFinite a = False"

text \<open>\<open>Math.max\<close> and \<open>Math.min\<close> of two arguments: \<open>NaN\<close> if either is.\<close>

definition js_max :: "jsnum \<Rightarrow> jsnum \<Rightarrow> jsnum" where
  "js_max a b = (if a = NaN \<or> b = NaN then NaN else if js_lt a b then b else a)"

definition js_min :: "jsnum \<Rightarrow> jsnum \<Rightarrow> jsnum" where
  "js_min a b = (if a = NaN \<or> b = NaN then NaN else if js_lt b a then b else a)"

fun js_abs :: "jsnum \<Rightarrow> jsnum" where
  "js_abs (Num a) = Num \<bar>a\<bar>"
| "js_abs PInf = PInf"
| "js_abs NInf = PInf"
| "js_abs NaN = NaN"

fun js_sqrt :: "jsnum \<Rightarrow> jsnum" where
  "js_sqrt (Num a) = (if a < 0 then NaN else Num (sqrt a))"
| "js_sqrt PInf = PInf"
| "js_sqrt NInf = NaN"
| "js_sqrt NaN = NaN"

section \<open>Golden-section minimization (golden-section-minimize)\<close>

definition PHI_RATIO :: jsnum where
  "PHI_RATIO = js_div (Num 2) (js_add (Num 1) (js_sqrt (Num 5)))"

text \<open>The optional status object, as the minimizer leaves it when one is passed.\<close>

record GoldenSectionMinimizeStatus =
  iterations :: int
  argmin :: jsnum
  minimum :: jsnum
  converged :: bool

text \<open>The local variables of \<open>goldenSectionMinimize\<close> that its loop updates.\<close>

record gs_state =
  xL :: jsnum
  xU :: jsnum
  x1 :: jsnum
  x2 :: jsnum
  f1 :: jsnum
  f2 :: jsnum
  iteration :: int

text \<open>One pass through the loop body: the interval loses its worse end and one new probe
  is evaluated.\<close>

definition gs_step :: "(jsnum \<Rightarrow> jsnum) \<Rightarrow> gs_state \<Rightarrow> gs_state" where
  "gs_step f s =
     (if js_gt (f2 s) (f1 s) then
        (let xU' = x2 s;
             x1' = js_sub xU' (js_mul PHI_RATIO (js_sub xU' (xL s)))
         in s\<lparr>xU := xU', x2 := x1 s, f2 := f1 s, x1 := x1', f1 := f x1'\<rparr>)
      else
        (let xL' = x1 s;
             x2' = js_add xL' (js_mul PHI_RATIO (js_sub (xU s) xL'))
         in s\<lparr>xL := xL', x1 := x2 s, f1 := f2 s, x2 := x2', f2 := f x2'\<rparr>))"

text \<open>
  \<open>while (++iteration < maxIterations && Math.abs(xU - xL) > tol)\<close>: the counter is
  incremented before every test, also before the one that ends the loop. The iteration
  budget is an integer.
\<close>

function gs_loop :: "(jsnum \<Rightarrow> jsnum) \<Rightarrow> jsnum \<Rightarrow> int \<Rightarrow> gs_state \<Rightarrow> gs_state" where
  "gs_loop f tol maxIterations s =
     (if iteration s + 1 < maxIterations
         \<and> js_gt (js_abs (js_sub (xU s) (xL s))) tol
      then gs_loop f tol maxIterations (gs_step f (s\<lparr>iteration := iteration s + 1\<rparr>))
      else s\<lparr>iteration := iteration s + 1\<rparr>)"
  by pat_completeness auto

termination gs_loop
  by (relation "measure (\<lambda>(f, tol, m, s). nat (m - iteration s))")
     (auto simp: gs_step_def Let_def)

declare gs_loop.simps [simp del]

text \<open>The state before the loop: the two interior probes and their values.\<close>

definition gs_init :: "(jsnum \<Rightarrow> jsnum) \<Rightarrow> jsnum \<Rightarrow> jsnum \<Rightarrow> gs_state" where
  "gs_init f lo hi =
     (let a = js_sub hi (js_mul PHI_RATIO (js_sub hi lo));
          b = js_add lo (js_mul PHI_RATIO (js_sub hi lo))
      in \<lparr>xL = lo, xU = hi, x1 = a, x2 = b, f1 = f a, f2 = f b, iteration = 0\<rparr>)"

definition gs_final :: "(jsnum \<Rightarrow> jsnum) \<Rightarrow> jsnum \<Rightarrow> jsnum \<Rightarrow> jsnum \<Rightarrow> int \<Rightarrow> gs_state" where
  "gs_final f lo hi tol maxIterations = gs_loop f tol maxIterations (gs_init f lo hi)"

definition gs_xF :: "gs_state \<Rightarrow> jsnum" where
  "gs_xF s = js_mul (Num (1/2)) (js_add (xU s) (xL s))"

definition gs_fF :: "gs_state \<Rightarrow> jsnum" where
  "gs_fF s = js_mul (Num (1/2)) (js_add (f1 s) (f2 s))"

definition gs_status :: "gs_state \<Rightarrow> bool \<Rightarrow> GoldenSectionMinimizeStatus" where
  "gs_status s c = \<lparr>iterations = iteration s, argmin = gs_xF s, minimum = gs_fF s, converged = c\<rparr>"

text \<open>
  The asynchronous \<open>goldenSectionMinimize\<close>: the result and the status it writes. The
  exhausted budget is tested first and returns the midpoint; a \<open>NaN\<close> probe value then
  returns \<open>undefined\<close>; otherwise an original end of the interval wins over the midpoint
  when its value is smaller than the interior estimate.
\<close>

definition goldenSectionMinimize ::
  "(jsnum \<Rightarrow> jsnum) \<Rightarrow> jsnum \<Rightarrow> jsnum \<Rightarrow> jsnum \<Rightarrow> int \<Rightarrow> jsval \<times> GoldenSectionMinimizeStatus" where
  "goldenSectionMinimize f lo hi tol maxIterations =
     (let f10 = f lo; f20 = f hi;
          s = gs_final f lo hi tol maxIterations
      in if iteration s = maxIterations then (Number (gs_xF s), gs_status s False)
         else if js_isNaN (f2 s) \<or> js_isNaN (f1 s) then (Undefined, gs_status s False)
         else if js_lt f10 (gs_fF s) then (Number lo, gs_status s True)
         else if js_lt f20 (gs_fF s) then (Number hi, gs_status s True)
         else (Number (gs_xF s), gs_status s True))"

text \<open>
  The synchronous \<open>goldenSectionMinimize\<close> differs in its failure exit only: a \<open>NaN\<close>
  probe value and the exhausted budget both return \<open>NaN\<close>.
\<close>

definition goldenSectionMinimizeSync ::
  "(jsnum \<Rightarrow> jsnum) \<Rightarrow> jsnum \<Rightarrow> jsnum \<Rightarrow> jsnum \<Rightarrow> int \<Rightarrow> jsval \<times> GoldenSectionMinimizeStatus" where
  "goldenSectionMinimizeSync f lo hi tol maxIterations =
     (let f10 = f lo; f20 = f hi;
          s = gs_final f lo hi tol maxIterations
      in if js_isNaN (f2 s) \<or> js_isNaN (f1 s) \<or> iteration s = maxIterations
         then (Number NaN, gs_status s False)
         else if js_lt f10 (gs_fF s) then (Number lo, gs_status s True)
         else if js_lt f20 (gs_fF s) then (Number hi, gs_status s True)
         else (Number (gs_xF s), gs_status s True))"

section \<open>Arrays and box bounds\<close>

text \<open>
  A JavaScript array of numbers is a list. Reading past its end gives \<open>undefined\<close>,
  which every arithmetic use in this code turns into \<open>NaN\<close>; writing past its end makes
  the array longer, and the slots in between (holes, which read as \<open>undefined\<close>) are
  represented by \<open>NaN\<close>.
\<close>

definition arr_get :: "jsnum list \<Rightarrow> nat \<Rightarrow> jsnum" where
  "arr_get xs i = (if i < length xs then xs ! i else NaN)"

definition arr_set :: "jsnum list \<Rightarrow> nat \<Rightarrow> jsnum \<Rightarrow> jsnum list" where
  "arr_set xs i v =
     (if i < length xs then xs[i := v] else xs @ replicate (i - length xs) NaN @ [v])"

text \<open>\<open>bounds\<close>: one entry per dimension, \<open>null\<close> or a pair; an entry that is missing
  reads as \<open>undefined\<close> and is skipped like \<open>null\<close>.\<close>

type_synonym box = "(jsnum \<times> jsnum) option list"

definition bounds_at :: "box \<Rightarrow> nat \<Rightarrow> (jsnum \<times> jsnum) option" where
  "bounds_at bs i = (if i < length bs then bs ! i else None)"

text \<open>\<open>constrain\<close>: clamp every bounded coordinate, in place.\<close>

definition constrain_step :: "box \<Rightarrow> nat \<Rightarrow> jsnum list \<Rightarrow> jsnum list" where
  "constrain_step bs i x =
     (case bounds_at bs i of
        None \<Rightarrow> x
      | Some (b0, b1) \<Rightarrow>
          (let y = (if js_isFinite b0 then arr_set x i (js_max b0 (arr_get x i)) else x)
           in if js_isFinite b1 then arr_set y i (js_min b1 (arr_get y i)) else y))"

definition constrain :: "box \<Rightarrow> jsnum list \<Rightarrow> jsnum list" where
  "constrain bs x = fold (constrain_step bs) [0..<length bs] x"

text \<open>\<open>bound\<close>: the step interval for the line search from \<open>pt\<close> along \<open>ui\<close>.\<close>

definition bound_step ::
  "box \<Rightarrow> jsnum list \<Rightarrow> jsnum list \<Rightarrow> nat \<Rightarrow> jsnum \<times> jsnum \<Rightarrow> jsnum \<times> jsnum" where
  "bound_step bs pt ui j lu =
     (case bounds_at bs j of
        None \<Rightarrow> lu
      | Some (b0, b1) \<Rightarrow>
          if js_eq (arr_get ui j) (Num 0) then lu
          else
            (let lower =
                   (if js_isFinite b0
                    then (if js_gt (arr_get ui j) (Num 0) then js_max else js_min) (fst lu)
                           (js_div (js_sub b0 (arr_get pt j)) (arr_get ui j))
                    else fst lu);
                 upper =
                   (if js_isFinite b1
                    then (if js_gt (arr_get ui j) (Num 0) then js_min else js_max) (snd lu)
                           (js_div (js_sub b1 (arr_get pt j)) (arr_get ui j))
                    else snd lu)
             in (lower, upper)))"

definition bound :: "nat \<Rightarrow> box \<Rightarrow> jsnum list \<Rightarrow> jsnum list \<Rightarrow> jsnum \<times> jsnum" where
  "bound n bs pt ui = fold (bound_step bs pt ui) [0..<n] (NInf, PInf)"

section \<open>The one-dimensional minimizer (minimizeGoldenSection1D)\<close>

text \<open>The options of the minimizer. Its field \<open>tolerance\<close> is \<open>tolerance1D\<close> here, the
  options of \<open>minimizePowell\<close> having a field of the same name.\<close>

record MinimizeOptions =
  tolerance1D :: "jsnum option"
  initialIncrement :: "jsnum option"
  lowerBound :: "jsnum option"
  upperBound :: "jsnum option"
  maxIterations :: "int option"
  guess :: "jsnum option"

text \<open>
  \<open>bracketMinimum\<close> is not part of the sources at hand; the minimizer takes it as a
  parameter: from the objective, the guess, the increment and the two limits it gives
  the bracket that the source reads back from the array \<open>bounds\<close>. The minimizer ends in
  a call of \<open>goldenSectionMinimize\<close>; the model takes the asynchronous one, whose result
  \<open>undefined\<close> is what \<open>minimizePowell\<close> tests for. A bracket with a \<open>NaN\<close> end is a
  failed bracketing, and the result is \<open>NaN\<close>.
\<close>

type_synonym bracketer =
  "(jsnum \<Rightarrow> jsnum) \<Rightarrow> jsnum \<Rightarrow> jsnum \<Rightarrow> jsnum \<Rightarrow> jsnum \<Rightarrow> jsnum \<times> jsnum"

definition status0 :: GoldenSectionMinimizeStatus where
  "status0 = \<lparr>iterations = 0, argmin = NaN, minimum = PInf, converged = False\<rparr>"

definition minimizeGoldenSection1D ::
  "bracketer \<Rightarrow> (jsnum \<Rightarrow> jsnum) \<Rightarrow> MinimizeOptions \<Rightarrow> jsval \<times> GoldenSectionMinimizeStatus" where
  "minimizeGoldenSection1D bracketMinimum f options =
     (let tol = (case tolerance1D options of None \<Rightarrow> Num (1 / 10 ^ 8) | Some v \<Rightarrow> v);
          dx = (case initialIncrement options of None \<Rightarrow> Num 1 | Some v \<Rightarrow> v);
          xMin = (case lowerBound options of None \<Rightarrow> NInf | Some v \<Rightarrow> v);
          xMax = (case upperBound options of None \<Rightarrow> PInf | Some v \<Rightarrow> v);
          maxIt = (case maxIterations options of None \<Rightarrow> 100 | Some v \<Rightarrow> v)
      in if js_isFinite xMax \<and> js_isFinite xMin
         then goldenSectionMinimize f xMin xMax tol maxIt
         else
           (let x0 =
                  (case guess options of
                     None \<Rightarrow>
                       (if js_gt xMin NInf
                        then (if js_lt xMax PInf then js_mul (Num (1/2)) (js_add xMin xMax) else xMin)
                        else (if js_lt xMax PInf then xMax else Num 0))
                   | Some g \<Rightarrow> g);
                b = bracketMinimum f x0 dx xMin xMax
            in if js_isNaN (fst b) \<or> js_isNaN (snd b) then (Number NaN, status0)
               else goldenSectionMinimize f (fst b) (snd b) tol maxIt))"

section \<open>Powell's method (minimizePowell)\<close>

record PowellOptions =
  maxIter :: "int option"
  maxIterLinearSearch :: "int option"
  lineTolerance :: "jsnum option"
  tolerance :: "jsnum option"
  bounds :: "box option"

text \<open>What \<open>minimizePowell\<close> gives back: a point, \<open>undefined\<close>, or a \<open>TypeError\<close>
  thrown where a direction that is not there would be read.\<close>

datatype outcome = Point "jsnum list" | NoPoint | TypeError

text \<open>
  A record of one call of the line minimizer, kept to state properties of whole runs:
  the outer iteration, the position in the cycle over the direction set (\<open>None\<close> for the
  extra search along the new direction), the point, the direction set and the number of
  recorded points at the call, and the step the call returned.
\<close>

record search =
  s_iter :: int
  s_index :: "nat option"
  s_point :: "jsnum list"
  s_dirs :: "jsnum list list"
  s_npoints :: nat
  s_result :: jsval

text \<open>The variables of a run: the solution vector, the direction set, the previous
  error, the trace \<open>status.points\<close>, the line searches made so far, and how many times
  the body of the outer loop has been entered.\<close>

record powell_state =
  p :: "jsnum list"
  u :: "jsnum list list"
  perr :: jsnum
  points :: "jsnum list list"
  searches :: "search list"
  rounds :: nat

definition basis :: "nat \<Rightarrow> jsnum list list" where
  "basis n = map (\<lambda>i. map (\<lambda>j. if i = j then Num 1 else Num 0) [0..<n]) [0..<n]"

definition bounds_of :: "PowellOptions \<Rightarrow> box" where
  "bounds_of opts = (case bounds opts of None \<Rightarrow> [] | Some b \<Rightarrow> b)"

definition tol_of :: "PowellOptions \<Rightarrow> jsnum" where
  "tol_of opts = (case tolerance opts of None \<Rightarrow> Num (1 / 10 ^ 8) | Some v \<Rightarrow> v)"

definition tol1d_of :: "PowellOptions \<Rightarrow> jsnum" where
  "tol1d_of opts =
     js_mul (case lineTolerance opts of None \<Rightarrow> tol_of opts | Some v \<Rightarrow> v) (Num (1/10))"

text \<open>Without the option \<open>bounds\<close> the step interval is the whole line.\<close>

definition tlimit_of :: "PowellOptions \<Rightarrow> nat \<Rightarrow> jsnum list \<Rightarrow> jsnum list \<Rightarrow> jsnum \<times> jsnum" where
  "tlimit_of opts n pt ui =
     (case bounds opts of None \<Rightarrow> (NInf, PInf) | Some b \<Rightarrow> bound n b pt ui)"

text \<open>\<open>fi\<close>: the objective along the line through \<open>pt\<close> with direction \<open>ui\<close>.\<close>

definition fi :: "(jsnum list \<Rightarrow> jsnum) \<Rightarrow> nat \<Rightarrow> jsnum list \<Rightarrow> jsnum list \<Rightarrow> jsnum \<Rightarrow> jsnum" where
  "fi f n pt ui t = f (map (\<lambda>i. js_add (arr_get pt i) (js_mul (arr_get ui i) t)) [0..<n])"

definition line_search ::
  "bracketer \<Rightarrow> (jsnum list \<Rightarrow> jsnum) \<Rightarrow> PowellOptions \<Rightarrow> nat \<Rightarrow> jsnum list \<Rightarrow> jsnum list \<Rightarrow> jsval" where
  "line_search bm f opts n pt ui =
     (let tlimit = tlimit_of opts n pt ui
      in fst (minimizeGoldenSection1D bm (fi f n pt ui)
           \<lparr>tolerance1D = Some (tol1d_of opts),
            initialIncrement = Some (Num (1/10)),
            lowerBound = Some (fst tlimit),
            upperBound = Some (snd tlimit),
            maxIterations = Some (case maxIterLinearSearch opts of None \<Rightarrow> 100 | Some v \<Rightarrow> v),
            guess = None\<rparr>))"

text \<open>\<open>for (j = 0; j < n; j++) p[j] += tmin * ui[j]\<close>\<close>

definition axpy :: "nat \<Rightarrow> jsnum \<Rightarrow> jsnum list \<Rightarrow> jsnum list \<Rightarrow> jsnum list" where
  "axpy n t ui pt =
     fold (\<lambda>j q. arr_set q j (js_add (arr_get q j) (js_mul t (arr_get ui j)))) [0..<n] pt"

definition sumsq :: "nat \<Rightarrow> (nat \<Rightarrow> jsnum) \<Rightarrow> jsnum" where
  "sumsq n d = fold (\<lambda>j acc. js_add acc (js_mul (d j) (d j))) [0..<n] (Num 0)"

definition log_search ::
  "int \<Rightarrow> nat option \<Rightarrow> jsval \<Rightarrow> powell_state \<Rightarrow> powell_state" where
  "log_search iter idx r s =
     s\<lparr>searches := searches s @
         [\<lparr>s_iter = iter, s_index = idx, s_point = p s, s_dirs = u s,
           s_npoints = length (points s), s_result = r\<rparr>]\<rparr>"

definition move :: "PowellOptions \<Rightarrow> nat \<Rightarrow> jsnum \<Rightarrow> jsnum list \<Rightarrow> powell_state \<Rightarrow> powell_state" where
  "move opts n t ui s =
     (let q = constrain (bounds_of opts) (axpy n t ui (p s))
      in s\<lparr>p := q, points := points s @ [q]\<rparr>)"

text \<open>
  The cycle over the direction set, from position \<open>i\<close>: \<open>Some r\<close> when the function
  returns \<open>r\<close> from inside the cycle, \<open>None\<close> when the cycle runs to its end.
\<close>

function cycle ::
  "bracketer \<Rightarrow> (jsnum list \<Rightarrow> jsnum) \<Rightarrow> PowellOptions \<Rightarrow> nat \<Rightarrow> int \<Rightarrow> nat \<Rightarrow> powell_state
     \<Rightarrow> outcome option \<times> powell_state" where
  "cycle bm f opts n iter i s =
     (if i < n then
        (if i < length (u s) then
           (case line_search bm f opts n (p s) (u s ! i) of
              Undefined \<Rightarrow> (Some NoPoint, log_search iter (Some i) Undefined s)
            | Number t \<Rightarrow>
                if js_eq t (Num 0)
                then (Some (Point (p s)), log_search iter (Some i) (Number t) s)
                else cycle bm f opts n iter (i + 1)
                       (move opts n t (u s ! i) (log_search iter (Some i) (Number t) s)))
         else (Some TypeError, s))
      else (None, s))"
  by pat_completeness auto
termination
  by (relation "measure (\<lambda>(bm, f, opts, n, iter, i, s). n - i)") auto

declare cycle.simps [simp del]

text \<open>\<open>if (iter % n === 0)\<close> the direction set is reinitialized (for \<open>n = 0\<close> the
  remainder is \<open>NaN\<close> and the test fails).\<close>

definition reinitialize :: "nat \<Rightarrow> int \<Rightarrow> powell_state \<Rightarrow> powell_state" where
  "reinitialize n iter s = (if n \<noteq> 0 \<and> iter mod int n = 0 then s\<lparr>u := basis n\<rparr> else s)"

text \<open>The body of the outer loop for the iteration numbered \<open>iter\<close>.\<close>

definition powell_iteration ::
  "bracketer \<Rightarrow> (jsnum list \<Rightarrow> jsnum) \<Rightarrow> PowellOptions \<Rightarrow> nat \<Rightarrow> int \<Rightarrow> powell_state
     \<Rightarrow> outcome option \<times> powell_state" where
  "powell_iteration bm f opts n iter s =
     (let s0 = reinitialize n iter s;
          p0 = map (arr_get (p s0)) [0..<n]
      in case cycle bm f opts n iter 0 s0 of
           (Some r, s1) \<Rightarrow> (Some r, s1)
         | (None, s1) \<Rightarrow>
             (let s2 = s1\<lparr>u := tl (u s1)\<rparr>;
                  un = map (\<lambda>j. js_sub (arr_get (p s2) j) (arr_get p0 j)) [0..<n];
                  sum = js_sqrt (sumsq n (arr_get un))
              in if js_gt sum (Num 0) then
                   (let un' = map (\<lambda>j. js_div (arr_get un j) sum) [0..<n];
                        s3 = s2\<lparr>u := u s2 @ [un']\<rparr>
                    in case line_search bm f opts n (p s3) un' of
                         Undefined \<Rightarrow> (Some NoPoint, log_search iter None Undefined s3)
                       | Number t \<Rightarrow>
                           if js_eq t (Num 0) \<or> \<not> js_isFinite t
                           then (Some (Point (p s3)), log_search iter None (Number t) s3)
                           else
                             (let err = js_sqrt (sumsq n (\<lambda>j. js_mul t (arr_get un' j)));
                                  s4 = move opts n t un' (log_search iter None (Number t) s3)
                              in if js_lt (js_div err (perr s4)) (tol_of opts)
                                 then (Some (Point (p s4)), s4)
                                 else (None, s4\<lparr>perr := err\<rparr>)))
                 else (Some (Point (p s2)), s2)))"

text \<open>\<open>while (++iter < maxIter)\<close>; when the loop ends the current point is returned.\<close>

function powell_loop ::
  "bracketer \<Rightarrow> (jsnum list \<Rightarrow> jsnum) \<Rightarrow> PowellOptions \<Rightarrow> nat \<Rightarrow> int \<Rightarrow> int \<Rightarrow> powell_state
     \<Rightarrow> outcome \<times> powell_state" where
  "powell_loop bm f opts n mx iter s =
     (if iter + 1 < mx then
        (case powell_iteration bm f opts n (iter + 1) (s\<lparr>rounds := rounds s + 1\<rparr>) of
           (Some r, s') \<Rightarrow> (r, s')
         | (None, s') \<Rightarrow> powell_loop bm f opts n mx (iter + 1) s')
      else (Point (p s), s))"
  by pat_completeness auto
termination
  by (relation "measure (\<lambda>(bm, f, opts, n, mx, iter, s). nat (mx - iter))") auto

declare powell_loop.simps [simp del]

definition powell_init :: "PowellOptions \<Rightarrow> jsnum list \<Rightarrow> powell_state" where
  "powell_init opts x0 =
     (let q = constrain (bounds_of opts) x0
      in \<lparr>p = q, u = basis (length x0), perr = Num 0, points = [q], searches = [],
          rounds = 0\<rparr>)"

definition maxIter_of :: "PowellOptions \<Rightarrow> int" where
  "maxIter_of opts = (case maxIter opts of None \<Rightarrow> 20 | Some v \<Rightarrow> v)"

text \<open>The result of a run and its final state. The objective is a function of the
  point alone; the output of the option \<open>verbose\<close> is not modelled.\<close>

definition minimizePowell ::
  "bracketer \<Rightarrow> (jsnum list \<Rightarrow> jsnum) \<Rightarrow> jsnum list \<Rightarrow> PowellOptions \<Rightarrow> outcome \<times> powell_state" where
  "minimizePowell bm f x0 opts =
     powell_loop bm f opts (length x0) (maxIter_of opts) 0 (powell_init opts x0)"

text \<open>
  A line search on whose result the run ends at once: the result \<open>undefined\<close>, a step
  that is exactly 0, or, for the extra search along the new direction, a step that is not
  finite. The run then returns \<open>undefined\<close> in the first case and the point of the search
  in the other two.
\<close>

definition stopping :: "search \<Rightarrow> bool" where
  "stopping e =
     (case s_result e of
        Undefined \<Rightarrow> True
      | Number t \<Rightarrow> js_eq t (Num 0) \<or> (s_index e = None \<and> \<not> js_isFinite t))"

definition verdict :: "search \<Rightarrow> outcome" where
  "verdict e = (case s_result e of Undefined \<Rightarrow> NoPoint | Number t \<Rightarrow> Point (s_point e))"

text \<open>The direction set at a line search has \<open>n\<close> directions, and in an iteration whose
  number is a multiple of \<open>n\<close> the cycle runs on the standard basis.\<close>

definition dirs_ok :: "nat \<Rightarrow> search \<Rightarrow> bool" where
  "dirs_ok n e = (length (s_dirs e) = n
     \<and> (s_index e = None \<or> s_iter e mod int n \<noteq> 0 \<or> s_dirs e = basis n))"

section \<open>What the specification asks of the step interval\<close>

text \<open>
  A step \<open>t\<close> from \<open>pt\<close> along \<open>ui\<close> is feasible when every bounded coordinate that
  moves stays within its bounds: \<open>bounds[j][0] \<le> pt[j] + ui[j] * t \<le> bounds[j][1]\<close> for each
  dimension \<open>j\<close> with \<open>ui[j] \<noteq> 0\<close>.
\<close>

definition feasible_step :: "nat \<Rightarrow> box \<Rightarrow> jsnum list \<Rightarrow> jsnum list \<Rightarrow> jsnum \<Rightarrow> bool" where
  "feasible_step n bs pt ui t =
     list_all
       (\<lambda>j. case bounds_at bs j of
              None \<Rightarrow> True
            | Some (b0, b1) \<Rightarrow>
                js_eq (arr_get ui j) (Num 0)
                \<or> (js_le b0 (js_add (arr_get pt j) (js_mul (arr_get ui j) t))
                    \<and> js_le (js_add (arr_get pt j) (js_mul (arr_get ui j) t)) b1))
       [0..<n]"

section \<open>Inputs used in the examples\<close>

text \<open>An objective that has no value left of \<open>1/2\<close>, and one that is \<open>a\<close> at 0, \<open>b\<close> at 1
  and 0 everywhere else.\<close>

definition nan_below_half :: "jsnum \<Rightarrow> jsnum" where
  "nan_below_half x = (if js_lt x (Num (1/2)) then NaN else Num 0)"

definition dips :: "real \<Rightarrow> real \<Rightarrow> jsnum \<Rightarrow> jsnum" where
  "dips a b x = (if js_eq x (Num 0) then Num a else if js_eq x (Num 1) then Num b else Num 0)"

text \<open>The downward parabola \<open>-x[0] * x[0]\<close>, which has no minimum.\<close>

definition neg_square :: "jsnum list \<Rightarrow> jsnum" where
  "neg_square x = js_neg (js_mul (arr_get x 0) (arr_get x 0))"

text \<open>
  Modelled from the spec: \<open>bracketMinimum\<close>, which is not among the sources, in the one
  case the examples need. On an objective that decreases without limit the expansion
  gives up and reports failure, both bracket values \<open>NaN\<close>; this is that outcome. The
  examples call it only along lines of the downward parabola without a finite limit on
  both sides; where both limits are finite no bracketing takes place.
\<close>

definition bracketMinimum_fails :: bracketer where
  "bracketMinimum_fails f x0 dx xMin xMax = (NaN, NaN)"

text \<open>Options with every field left out, and with bounds in one dimension and a line
  search that stops at its first test.\<close>

definition no_options :: PowellOptions where
  "no_options =
     \<lparr>maxIter = None, maxIterLinearSearch = None, lineTolerance = None, tolerance = None,
      bounds = None\<rparr>"

definition boxed_options :: "real \<Rightarrow> real \<Rightarrow> PowellOptions" where
  "boxed_options lo hi =
     \<lparr>maxIter = None, maxIterLinearSearch = Some 1, lineTolerance = None, tolerance = None,
      bounds = Some [Some (Num lo, Num hi)]\<rparr>"

text \<open>Bounds from -1 to 1 and a line tolerance that the first interval already meets.\<close>

definition wide_tolerance :: PowellOptions where
  "wide_tolerance =
     \<lparr>maxIter = None, maxIterLinearSearch = None, lineTolerance = Some (Num 100),
      tolerance = None, bounds = Some [Some (Num (- 1), Num 1)]\<rparr>"

section \<open>Properties of the golden-section minimizer\<close>

subsection \<open>The loop\<close>

lemma PHI_RATIO_val: "PHI_RATIO = Num (2 / (1 + sqrt 5))"
proof -
  have "0 \<le> sqrt 5" by simp
  then have "1 + sqrt 5 \<noteq> 0" by linarith
  then show ?thesis by (simp add: PHI_RATIO_def)
qed

lemma phi_bounds: "1/2 < 2 / (1 + sqrt 5)" "2 / (1 + sqrt 5) < 2/3"
proof -
  have a: "2 < sqrt 5" using real_sqrt_less_iff[of 4 5] by simp
  have "sqrt 9 = 3" using real_sqrt_abs[of 3] by simp
  then have b: "sqrt 5 < 3" using real_sqrt_less_iff[of 5 9] by simp
  show "1/2 < 2 / (1 + sqrt 5)" using a b by (simp add: field_simps)
  show "2 / (1 + sqrt 5) < 2/3" using a b by (simp add: field_simps)
qed

lemma gs_step_iteration: "iteration (gs_step f s) = iteration s"
  by (simp add: gs_step_def Let_def)

text \<open>When the loop is left, one of its two tests has failed.\<close>

lemma gs_loop_exit:
  "\<not> (iteration (gs_loop f tol m s) < m
       \<and> js_gt (js_abs (js_sub (xU (gs_loop f tol m s)) (xL (gs_loop f tol m s)))) tol)"
proof (induction f tol m s rule: gs_loop.induct)
  case (1 f tol m s)
  show ?case
  proof (cases "iteration s + 1 < m \<and> js_gt (js_abs (js_sub (xU s) (xL s))) tol")
    case True
    then show ?thesis using 1 by (subst (1 2 3) gs_loop.simps) simp
  next
    case False
    then show ?thesis by (subst (1 2 3) gs_loop.simps) auto
  qed
qed

lemma gs_loop_iteration_le:
  "iteration s < m \<Longrightarrow> iteration (gs_loop f tol m s) \<le> m"
proof (induction f tol m s rule: gs_loop.induct)
  case (1 f tol m s)
  show ?case
  proof (cases "iteration s + 1 < m \<and> js_gt (js_abs (js_sub (xU s) (xL s))) tol")
    case True
    then show ?thesis using 1 by (subst gs_loop.simps) (simp add: gs_step_iteration)
  next
    case False
    then show ?thesis using 1(2) by (subst gs_loop.simps) auto
  qed
qed

lemma gs_final_exhausted:
  assumes "1 \<le> m"
    and "js_gt (js_abs (js_sub (xU (gs_final f lo hi tol m)) (xL (gs_final f lo hi tol m)))) tol"
  shows "iteration (gs_final f lo hi tol m) = m"
proof -
  have "iteration (gs_init f lo hi) < m" using assms(1) by (simp add: gs_init_def Let_def)
  then have "iteration (gs_final f lo hi tol m) \<le> m"
    unfolding gs_final_def by (rule gs_loop_iteration_le)
  moreover have "\<not> iteration (gs_final f lo hi tol m) < m"
    using gs_loop_exit[of f tol m "gs_init f lo hi"] assms(2) unfolding gs_final_def by blast
  ultimately show ?thesis by linarith
qed

lemma gs_final_width:
  assumes "1 \<le> m" and "iteration (gs_final f lo hi tol m) \<noteq> m"
  shows "\<not> js_gt (js_abs (js_sub (xU (gs_final f lo hi tol m)) (xL (gs_final f lo hi tol m)))) tol"
  using gs_final_exhausted[OF assms(1)] assms(2) by blast

lemmas gs_eval = goldenSectionMinimize_def goldenSectionMinimizeSync_def gs_final_def gs_init_def
  gs_loop.simps gs_status_def gs_fF_def gs_xF_def js_isNaN_def Let_def PHI_RATIO_val js_sub_def js_gt_def

subsection \<open>An exhausted iteration budget\<close>

text \<open>
  Claim C3, as amended. Let the iteration budget \<open>maxIterations\<close> be at least 1. If
  \<open>goldenSectionMinimize\<close> leaves its loop while the interval is still wider than the
  tolerance, so that the budget is what stopped it, then the asynchronous function
  returns the midpoint \<open>0.5 * (xU + xL)\<close> of the remaining interval as a number and sets
  \<open>status.converged = false\<close>. The synchronous function sets \<open>status.converged = false\<close> as
  well, but returns \<open>NaN\<close>.
\<close>

theorem exhausted_budget_returns_midpoint:
  assumes "1 \<le> m"
    and "s = gs_final f lo hi tol m"
    and "js_gt (js_abs (js_sub (xU s) (xL s))) tol"
  shows "goldenSectionMinimize f lo hi tol m
           = (Number (js_mul (Num (1/2)) (js_add (xU s) (xL s))), gs_status s False)
         \<and> \<not> converged (gs_status s False)
         \<and> goldenSectionMinimizeSync f lo hi tol m = (Number NaN, gs_status s False)"
proof -
  have "iteration (gs_final f lo hi tol m) = m"
    using gs_final_exhausted[OF assms(1)] assms(2,3) by simp
  then show ?thesis
    using assms(2)
    by (simp add: goldenSectionMinimize_def goldenSectionMinimizeSync_def gs_xF_def gs_status_def Let_def)
qed

text \<open>The theorem at a budget of one iteration on the interval from 0 to 1.\<close>

theorem exhausted_budget_returns_midpoint_witness:
  "(1::int) \<le> 1
   \<and> js_gt (js_abs (js_sub (xU (gs_final (\<lambda>x. Num 0) (Num 0) (Num 1) (Num 0) 1))
                           (xL (gs_final (\<lambda>x. Num 0) (Num 0) (Num 1) (Num 0) 1)))) (Num 0)
   \<and> goldenSectionMinimize (\<lambda>x. Num 0) (Num 0) (Num 1) (Num 0) 1
       = (Number (Num (1/2)),
          \<lparr>iterations = 1, argmin = Num (1/2), minimum = Num 0, converged = False\<rparr>)"
proof -
  have w: "js_gt (js_abs (js_sub (xU (gs_final (\<lambda>x. Num 0) (Num 0) (Num 1) (Num 0) 1))
                           (xL (gs_final (\<lambda>x. Num 0) (Num 0) (Num 1) (Num 0) 1)))) (Num 0)"
    by (simp add: gs_eval)
  have fin: "gs_final (\<lambda>x. Num 0) (Num 0) (Num 1) (Num 0) 1
     = \<lparr>xL = Num 0, xU = Num 1, x1 = Num (1 - 2 / (1 + sqrt 5)), x2 = Num (2 / (1 + sqrt 5)),
        f1 = Num 0, f2 = Num 0, iteration = 1\<rparr>"
    by (simp add: gs_eval)
  show ?thesis
    using exhausted_budget_returns_midpoint[of 1 "gs_final (\<lambda>x. Num 0) (Num 0) (Num 1) (Num 0) 1"
        "\<lambda>x. Num 0" "Num 0" "Num 1" "Num 0", OF _ refl w] w
    by (simp add: fin gs_status_def gs_xF_def gs_fF_def)
qed

text \<open>
  Claim C3 as stated fails. With a budget of 0 the loop is left at its first test with the
  interval wider than the tolerance, yet the counter is 1, not 0: the asynchronous
  function reports \<open>converged = true\<close>. And with a budget of 1 the synchronous function
  returns \<open>NaN\<close>, not the midpoint.
\<close>

theorem exhausted_budget_counterexample:
  "js_gt (js_abs (js_sub (xU (gs_final (\<lambda>x. Num 0) (Num 0) (Num 1) (Num 0) 0))
                         (xL (gs_final (\<lambda>x. Num 0) (Num 0) (Num 1) (Num 0) 0)))) (Num 0)
   \<and> converged (snd (goldenSectionMinimize (\<lambda>x. Num 0) (Num 0) (Num 1) (Num 0) 0))
   \<and> fst (goldenSectionMinimizeSync (\<lambda>x. Num 0) (Num 0) (Num 1) (Num 0) 1) = Number NaN"
  by (simp add: gs_eval)

subsection \<open>Probes that are not a number\<close>

text \<open>
  Claim C4, as amended. If one of the two probe values that \<open>goldenSectionMinimize\<close>
  holds when its loop ends is \<open>NaN\<close>, and the iteration counter is not equal to
  \<open>maxIterations\<close>, then the asynchronous function returns \<open>undefined\<close> and sets
  \<open>status.converged = false\<close>; the synchronous function returns \<open>NaN\<close> with the same
  status.
\<close>

theorem nan_probe_fails_unless_exhausted:
  assumes "s = gs_final f lo hi tol m"
    and "js_isNaN (f1 s) \<or> js_isNaN (f2 s)"
    and "iteration s \<noteq> m"
  shows "goldenSectionMinimize f lo hi tol m = (Undefined, gs_status s False)
         \<and> \<not> converged (gs_status s False)
         \<and> goldenSectionMinimizeSync f lo hi tol m = (Number NaN, gs_status s False)"
  using assms
  by (auto simp: goldenSectionMinimize_def goldenSectionMinimizeSync_def gs_status_def Let_def)

text \<open>The theorem on an objective that is \<open>NaN\<close> everywhere, the tolerance met at once.\<close>

theorem nan_probe_fails_unless_exhausted_witness:
  "(js_isNaN (f1 (gs_final (\<lambda>x. NaN) (Num 0) (Num 1) (Num 2) 5))
      \<or> js_isNaN (f2 (gs_final (\<lambda>x. NaN) (Num 0) (Num 1) (Num 2) 5)))
   \<and> iteration (gs_final (\<lambda>x. NaN) (Num 0) (Num 1) (Num 2) 5) \<noteq> 5
   \<and> fst (goldenSectionMinimize (\<lambda>x. NaN) (Num 0) (Num 1) (Num 2) 5) = Undefined"
proof -
  have a: "js_isNaN (f1 (gs_final (\<lambda>x. NaN) (Num 0) (Num 1) (Num 2) 5))
      \<or> js_isNaN (f2 (gs_final (\<lambda>x. NaN) (Num 0) (Num 1) (Num 2) 5))"
    by (simp add: gs_eval)
  have b: "iteration (gs_final (\<lambda>x. NaN) (Num 0) (Num 1) (Num 2) 5) \<noteq> 5"
    by (simp add: gs_eval)
  show ?thesis
    using nan_probe_fails_unless_exhausted[OF refl a b] a b by simp
qed

text \<open>
  Claim C4 as stated fails: a probe that evaluates to \<open>NaN\<close> is forgotten when the loop
  moves on. Here the first probe is \<open>NaN\<close>, the comparison with it is false, the loop
  drops that end of the interval, and the function converges to a number.
\<close>

theorem nan_probe_counterexample:
  "f1 (gs_init nan_below_half (Num 0) (Num 1)) = NaN
   \<and> fst (goldenSectionMinimize nan_below_half (Num 0) (Num 1) (Num (7/10)) 10) \<noteq> Undefined
   \<and> converged (snd (goldenSectionMinimize nan_below_half (Num 0) (Num 1) (Num (7/10)) 10))"
proof -
  define c where "c = 2 / (1 + sqrt 5)"
  have c: "1/2 < c" "c < 2/3" using phi_bounds by (simp_all add: c_def)
  have phi: "PHI_RATIO = Num c" by (simp add: PHI_RATIO_val c_def)
  have "1/4 < c * c" using c(1) mult_strict_mono[of "1/2" c "1/2" c] by simp
  then have sq: "\<not> (1 - c + c * c < 1/2)" "\<not> (1 + c * c < 1/2 + c)"
      "\<not> (c * c + 1 < 1/2 + c)" "\<not> (c * c < c - 1/2)"
    using c by linarith+
  have i0: "gs_init nan_below_half (Num 0) (Num 1)
     = \<lparr>xL = Num 0, xU = Num 1, x1 = Num (1 - c), x2 = Num c, f1 = NaN, f2 = Num 0,
        iteration = 0\<rparr>"
    using c by (simp add: gs_init_def phi js_sub_def nan_below_half_def Let_def)
  have st: "gs_step nan_below_half
       \<lparr>xL = Num 0, xU = Num 1, x1 = Num (1 - c), x2 = Num c, f1 = NaN, f2 = Num 0,
        iteration = 1\<rparr>
     = \<lparr>xL = Num (1 - c), xU = Num 1, x1 = Num c, x2 = Num (1 - c + c * c), f1 = Num 0,
        f2 = Num 0, iteration = 1\<rparr>"
    using c sq
    by (simp add: gs_step_def phi js_sub_def js_gt_def nan_below_half_def Let_def algebra_simps)
  have fin: "gs_final nan_below_half (Num 0) (Num 1) (Num (7/10)) 10
     = \<lparr>xL = Num (1 - c), xU = Num 1, x1 = Num c, x2 = Num (1 - c + c * c), f1 = Num 0,
        f2 = Num 0, iteration = 2\<rparr>"
    unfolding gs_final_def i0
    apply (subst gs_loop.simps)
    apply (simp add: js_sub_def js_gt_def st)
    apply (subst gs_loop.simps)
    using c apply (simp add: js_sub_def js_gt_def)
    done
  show ?thesis
    by (simp add: i0 goldenSectionMinimize_def fin Let_def js_isNaN_def gs_fF_def gs_status_def
        nan_below_half_def)
qed

subsection \<open>The order of the two failure checks\<close>

text \<open>
  Claim C9, as amended. Let the iteration budget \<open>maxIterations\<close> be at least 1. In the
  asynchronous \<open>goldenSectionMinimize\<close>, when the counter has reached the budget the
  function returns the midpoint of the interval as a number with
  \<open>status.converged = false\<close>, whatever the probe values are; and it returns \<open>undefined\<close>
  only when the loop was left because the test \<open>Math.abs(xU - xL) > tol\<close> failed.
\<close>

theorem exhaustion_check_precedes_nan_check:
  assumes "1 \<le> m" and "s = gs_final f lo hi tol m"
  shows "(iteration s = m \<longrightarrow> goldenSectionMinimize f lo hi tol m
             = (Number (js_mul (Num (1/2)) (js_add (xU s) (xL s))), gs_status s False))
         \<and> (fst (goldenSectionMinimize f lo hi tol m) = Undefined
             \<longrightarrow> \<not> js_gt (js_abs (js_sub (xU s) (xL s))) tol)"
proof -
  have "fst (goldenSectionMinimize f lo hi tol m) = Undefined \<Longrightarrow> iteration s \<noteq> m"
    using assms(2) by (auto simp: goldenSectionMinimize_def Let_def split: if_splits)
  then show ?thesis
    using gs_final_width[OF assms(1), of f lo hi tol] assms(2)
    by (auto simp: goldenSectionMinimize_def gs_xF_def Let_def)
qed

text \<open>The theorem on an objective that is \<open>NaN\<close> everywhere: with a budget of 1 the
  midpoint is returned; with a budget of 5 and a tolerance of 2, which the interval of
  width 1 meets at once, \<open>undefined\<close> is returned.\<close>

theorem exhaustion_check_precedes_nan_check_witness:
  "(1::int) \<le> 1
   \<and> iteration (gs_final (\<lambda>x. NaN) (Num 0) (Num 1) (Num 0) 1) = 1
   \<and> f1 (gs_final (\<lambda>x. NaN) (Num 0) (Num 1) (Num 0) 1) = NaN
   \<and> fst (goldenSectionMinimize (\<lambda>x. NaN) (Num 0) (Num 1) (Num 0) 1) = Number (Num (1/2))
   \<and> (1::int) \<le> 5
   \<and> fst (goldenSectionMinimize (\<lambda>x. NaN) (Num 0) (Num 1) (Num 2) 5) = Undefined
   \<and> js_abs (js_sub (xU (gs_final (\<lambda>x. NaN) (Num 0) (Num 1) (Num 2) 5))
                     (xL (gs_final (\<lambda>x. NaN) (Num 0) (Num 1) (Num 2) 5))) = Num 1"
proof -
  have fin: "gs_final (\<lambda>x. NaN) (Num 0) (Num 1) (Num 0) 1
     = \<lparr>xL = Num 0, xU = Num 1, x1 = Num (1 - 2 / (1 + sqrt 5)), x2 = Num (2 / (1 + sqrt 5)),
        f1 = NaN, f2 = NaN, iteration = 1\<rparr>"
    by (simp add: gs_eval)
  have fin5: "gs_final (\<lambda>x. NaN) (Num 0) (Num 1) (Num 2) 5
     = \<lparr>xL = Num 0, xU = Num 1, x1 = Num (1 - 2 / (1 + sqrt 5)), x2 = Num (2 / (1 + sqrt 5)),
        f1 = NaN, f2 = NaN, iteration = 1\<rparr>"
    by (simp add: gs_eval)
  have und: "fst (goldenSectionMinimize (\<lambda>x. NaN) (Num 0) (Num 1) (Num 2) 5) = Undefined"
    by (simp add: goldenSectionMinimize_def fin5 Let_def js_isNaN_def)
  show ?thesis
    using exhaustion_check_precedes_nan_check[of 1 "gs_final (\<lambda>x. NaN) (Num 0) (Num 1) (Num 0) 1"
        "\<lambda>x. NaN" "Num 0" "Num 1" "Num 0"]
      exhaustion_check_precedes_nan_check[of 5 "gs_final (\<lambda>x. NaN) (Num 0) (Num 1) (Num 2) 5"
        "\<lambda>x. NaN" "Num 0" "Num 1" "Num 2"] und
    by (simp add: fin fin5 js_sub_def)
qed

text \<open>
  Claim C9 as stated fails for a budget of 0: the loop is left at its first test, by the
  budget and with the interval wider than the tolerance, the counter is 1 and not 0, and
  the \<open>NaN\<close> check returns \<open>undefined\<close>.
\<close>

theorem exhaustion_check_counterexample:
  "js_gt (js_abs (js_sub (xU (gs_final (\<lambda>x. NaN) (Num 0) (Num 1) (Num 0) 0))
                         (xL (gs_final (\<lambda>x. NaN) (Num 0) (Num 1) (Num 0) 0)))) (Num 0)
   \<and> fst (goldenSectionMinimize (\<lambda>x. NaN) (Num 0) (Num 1) (Num 0) 0) = Undefined"
  by (simp add: gs_eval)

subsection \<open>An end of the interval can win\<close>

lemma gs_final_at_once:
  "gs_final (dips a b) (Num 0) (Num 1) (Num 2) 5
     = \<lparr>xL = Num 0, xU = Num 1, x1 = Num (1 - 2 / (1 + sqrt 5)), x2 = Num (2 / (1 + sqrt 5)),
        f1 = Num 0, f2 = Num 0, iteration = 1\<rparr>"
proof -
  have "2 / (1 + sqrt 5) \<noteq> 1" "2 / (1 + sqrt 5) \<noteq> 0" "1 - 2 / (1 + sqrt 5) \<noteq> 0"
    "1 - 2 / (1 + sqrt 5) \<noteq> 1"
    using phi_bounds by linarith+
  then show ?thesis by (simp add: gs_eval dips_def js_eq_def)
qed

text \<open>
  Claim C8, as amended. Let \<open>fF\<close> be the average of the two final probe values and \<open>xF\<close>
  the midpoint of the final interval, and let \<open>goldenSectionMinimize\<close> converge: it leaves
  its loop with the counter not equal to \<open>maxIterations\<close> and with both probe values
  numbers. Then it sets \<open>status.converged = true\<close> and returns \<open>lo\<close> if \<open>f(lo) < fF\<close>;
  otherwise \<open>hi\<close> if \<open>f(hi) < fF\<close>; otherwise \<open>xF\<close>. The lower end is tested first: when
  both ends are below \<open>fF\<close> the result is \<open>lo\<close>. This holds for the asynchronous and for
  the synchronous function.
\<close>

theorem lower_end_tested_first:
  assumes "s = gs_final f lo hi tol m"
    and "fF = js_mul (Num (1/2)) (js_add (f1 s) (f2 s))"
    and "xF = js_mul (Num (1/2)) (js_add (xU s) (xL s))"
    and "iteration s \<noteq> m" and "f1 s \<noteq> NaN" and "f2 s \<noteq> NaN"
  shows "goldenSectionMinimize f lo hi tol m
           = (if js_lt (f lo) fF then Number lo
              else if js_lt (f hi) fF then Number hi else Number xF,
              gs_status s True)
       \<and> goldenSectionMinimizeSync f lo hi tol m
           = (if js_lt (f lo) fF then Number lo
              else if js_lt (f hi) fF then Number hi else Number xF,
              gs_status s True)
       \<and> converged (gs_status s True)"
  using assms
  by (simp add: goldenSectionMinimize_def goldenSectionMinimizeSync_def gs_status_def gs_fF_def
      gs_xF_def js_isNaN_def Let_def)

text \<open>The theorem on the interval from 0 to 1 with a tolerance that is met at once, on
  three objectives that are 0 inside the interval: with a dip at 0 the lower end is
  returned, with a dip at 1 the upper end, and without a dip the midpoint.\<close>

theorem lower_end_tested_first_witness:
  "iteration (gs_final (dips (- 1) 0) (Num 0) (Num 1) (Num 2) 5) \<noteq> 5
   \<and> f1 (gs_final (dips (- 1) 0) (Num 0) (Num 1) (Num 2) 5) \<noteq> NaN
   \<and> f2 (gs_final (dips (- 1) 0) (Num 0) (Num 1) (Num 2) 5) \<noteq> NaN
   \<and> fst (goldenSectionMinimize (dips (- 1) 0) (Num 0) (Num 1) (Num 2) 5) = Number (Num 0)
   \<and> fst (goldenSectionMinimizeSync (dips (- 1) 0) (Num 0) (Num 1) (Num 2) 5) = Number (Num 0)
   \<and> fst (goldenSectionMinimize (dips 0 (- 1)) (Num 0) (Num 1) (Num 2) 5) = Number (Num 1)
   \<and> fst (goldenSectionMinimizeSync (dips 0 (- 1)) (Num 0) (Num 1) (Num 2) 5) = Number (Num 1)
   \<and> fst (goldenSectionMinimize (dips 0 0) (Num 0) (Num 1) (Num 2) 5) = Number (Num (1/2))
   \<and> fst (goldenSectionMinimizeSync (dips 0 0) (Num 0) (Num 1) (Num 2) 5) = Number (Num (1/2))
   \<and> converged (snd (goldenSectionMinimize (dips 0 (- 1)) (Num 0) (Num 1) (Num 2) 5))"
proof -
  have c: "iteration (gs_final (dips a b) (Num 0) (Num 1) (Num 2) 5) \<noteq> 5"
    "f1 (gs_final (dips a b) (Num 0) (Num 1) (Num 2) 5) \<noteq> NaN"
    "f2 (gs_final (dips a b) (Num 0) (Num 1) (Num 2) 5) \<noteq> NaN" for a b
    by (simp_all add: gs_final_at_once)
  show ?thesis
    using lower_end_tested_first[OF refl refl refl c[of "- 1" 0]]
      lower_end_tested_first[OF refl refl refl c[of 0 "- 1"]]
      lower_end_tested_first[OF refl refl refl c[of 0 0]] c[of "- 1" 0]
    by (simp add: gs_final_at_once dips_def js_eq_def gs_status_def)
qed

text \<open>
  Claim C8 as stated fails where both ends are below the interior estimate. On the
  objective that is -1 at 0, -2 at 1 and 0 in between, the function converges with
  \<open>fF = 0\<close>; the value at the upper end is strictly less than \<open>fF\<close>, and less than the
  value at the lower end, yet the lower end 0 is returned, not the upper end 1.
\<close>

theorem lower_end_tested_first_counterexample:
  "converged (snd (goldenSectionMinimize (dips (- 1) (- 2)) (Num 0) (Num 1) (Num 2) 5))
   \<and> js_lt (dips (- 1) (- 2) (Num 1))
        (js_mul (Num (1/2))
           (js_add (f1 (gs_final (dips (- 1) (- 2)) (Num 0) (Num 1) (Num 2) 5))
                   (f2 (gs_final (dips (- 1) (- 2)) (Num 0) (Num 1) (Num 2) 5))))
   \<and> js_lt (dips (- 1) (- 2) (Num 1)) (dips (- 1) (- 2) (Num 0))
   \<and> fst (goldenSectionMinimize (dips (- 1) (- 2)) (Num 0) (Num 1) (Num 2) 5) = Number (Num 0)
   \<and> fst (goldenSectionMinimizeSync (dips (- 1) (- 2)) (Num 0) (Num 1) (Num 2) 5)
       = Number (Num 0)
   \<and> Number (Num 0) \<noteq> Number (Num 1)"
  by (simp add: goldenSectionMinimize_def goldenSectionMinimizeSync_def gs_final_at_once Let_def
      js_isNaN_def gs_fF_def gs_status_def dips_def js_eq_def)

section \<open>Properties of Powell's method\<close>

subsection \<open>Arrays and clamping\<close>

lemma arr_get_set: "arr_get (arr_set x i v) k = (if k = i then v else arr_get x k)"
  by (auto simp: arr_get_def arr_set_def nth_append)

text \<open>The value that \<open>constrain\<close> leaves at a coordinate with the given bounds.\<close>

lemma constrain_step_get:
  "arr_get (constrain_step bs i x) k =
     (if k = i then
        (case bounds_at bs i of
           None \<Rightarrow> arr_get x i
         | Some (b0, b1) \<Rightarrow>
             (let y = (if js_isFinite b0 then js_max b0 (arr_get x i) else arr_get x i)
              in if js_isFinite b1 then js_min b1 y else y))
      else arr_get x k)"
  by (auto simp: constrain_step_def arr_get_set Let_def split: option.splits)

lemma constrain_fold_get:
  "arr_get (fold (constrain_step bs) [0..<m] x) k =
     (if k < m then arr_get (constrain_step bs k x) k else arr_get x k)"
proof (induction m)
  case 0
  then show ?case by simp
next
  case (Suc m)
  show ?case
  proof (cases "k = m")
    case True
    then show ?thesis using Suc by (simp add: constrain_step_get split: option.splits)
  next
    case False
    then show ?thesis using Suc by (auto simp: constrain_step_get less_Suc_eq)
  qed
qed

lemma constrain_get:
  "arr_get (constrain bs x) k =
     (if k < length bs then arr_get (constrain_step bs k x) k else arr_get x k)"
  by (simp add: constrain_def constrain_fold_get)

lemma js_max_lower: "js_max a b \<noteq> NaN \<Longrightarrow> js_le a (js_max a b)"
  by (auto simp: js_max_def js_le_def js_eq_def split: if_splits)

lemma js_min_upper: "js_min a b \<noteq> NaN \<Longrightarrow> js_le (js_min a b) a"
  by (auto simp: js_min_def js_le_def js_eq_def split: if_splits)

lemma js_min_lower:
  "js_min a b \<noteq> NaN \<Longrightarrow> js_le c a \<Longrightarrow> js_le c b \<Longrightarrow> js_le c (js_min a b)"
  by (auto simp: js_min_def split: if_splits)

lemma js_min_arg: "js_min a b \<noteq> NaN \<Longrightarrow> b \<noteq> NaN"
  by (auto simp: js_min_def split: if_splits)

lemma js_max_arg: "js_max a b \<noteq> NaN \<Longrightarrow> b \<noteq> NaN"
  by (auto simp: js_max_def split: if_splits)

text \<open>A clamped coordinate that is a number lies within its finite bounds.\<close>

lemma constrain_within:
  assumes "i < length bs" and "bs ! i = Some (lo, hi)"
    and "arr_get (constrain bs x) i \<noteq> NaN"
  shows "(js_isFinite hi \<longrightarrow> js_le (arr_get (constrain bs x) i) hi)
       \<and> (js_isFinite lo \<longrightarrow> (js_isFinite hi \<longrightarrow> js_le lo hi)
            \<longrightarrow> js_le lo (arr_get (constrain bs x) i))"
proof -
  define v where "v = arr_get x i"
  define y where "y = (if js_isFinite lo then js_max lo v else v)"
  have q: "arr_get (constrain bs x) i = (if js_isFinite hi then js_min hi y else y)"
    using assms(1,2) by (simp add: constrain_get constrain_step_get bounds_at_def Let_def v_def y_def)
  show ?thesis
  proof (cases "js_isFinite hi")
    case True
    then have r: "arr_get (constrain bs x) i = js_min hi y" and nn: "js_min hi y \<noteq> NaN"
      using q assms(3) by simp_all
    have yn: "y \<noteq> NaN" using nn by (rule js_min_arg)
    have up: "js_le (js_min hi y) hi" using nn by (rule js_min_upper)
    have low: "js_le lo (js_min hi y)" if "js_isFinite lo" "js_le lo hi"
    proof -
      have "y = js_max lo v" using that(1) by (simp add: y_def)
      then have "js_le lo y" using yn js_max_lower[of lo v] by simp
      then show ?thesis using nn that(2) by (intro js_min_lower) simp_all
    qed
    show ?thesis using True r up low by simp
  next
    case False
    then have r: "arr_get (constrain bs x) i = y" using q by simp
    have "js_le lo y" if "js_isFinite lo"
      using that assms(3) r js_max_lower[of lo v] by (simp add: y_def)
    then show ?thesis using False r by simp
  qed
qed

subsection \<open>Runs of Powell's method\<close>

lemma log_search_simps [simp]:
  "p (log_search iter idx r s) = p s"
  "u (log_search iter idx r s) = u s"
  "perr (log_search iter idx r s) = perr s"
  "points (log_search iter idx r s) = points s"
  "rounds (log_search iter idx r s) = rounds s"
  "searches (log_search iter idx r s) = searches s @
     [\<lparr>s_iter = iter, s_index = idx, s_point = p s, s_dirs = u s,
       s_npoints = length (points s), s_result = r\<rparr>]"
  by (simp_all add: log_search_def)

lemma move_simps [simp]:
  "p (move opts n t ui s) = constrain (bounds_of opts) (axpy n t ui (p s))"
  "u (move opts n t ui s) = u s"
  "perr (move opts n t ui s) = perr s"
  "points (move opts n t ui s) = points s @ [constrain (bounds_of opts) (axpy n t ui (p s))]"
  "rounds (move opts n t ui s) = rounds s"
  "searches (move opts n t ui s) = searches s"
  by (simp_all add: move_def Let_def)

text \<open>The cycle, one step at a time.\<close>

lemma cycle_cases:
  assumes "cycle bm f opts n iter i s = (r, s')"
  obtains
    (over) "\<not> i < n" "r = None" "s' = s"
  | (missing) "i < n" "\<not> i < length (u s)" "r = Some TypeError" "s' = s"
  | (failed) "i < n" "i < length (u s)"
      "line_search bm f opts n (p s) (u s ! i) = Undefined"
      "r = Some NoPoint" "s' = log_search iter (Some i) Undefined s"
  | (zero) "i < n" "i < length (u s)"
      "line_search bm f opts n (p s) (u s ! i) = Number (Num 0)"
      "r = Some (Point (p s))" "s' = log_search iter (Some i) (Number (Num 0)) s"
  | (step) t where "i < n" "i < length (u s)"
      "line_search bm f opts n (p s) (u s ! i) = Number t" "\<not> js_eq t (Num 0)"
      "cycle bm f opts n iter (i + 1)
         (move opts n t (u s ! i) (log_search iter (Some i) (Number t) s)) = (r, s')"
  using assms
  by (subst (asm) cycle.simps) (auto simp: js_eq_def split: if_splits jsval.splits)

lemma cycle_frame:
  "cycle bm f opts n iter i s = (r, s') \<Longrightarrow>
     u s' = u s \<and> perr s' = perr s \<and> rounds s' = rounds s"
proof (induction bm f opts n iter i s arbitrary: r s' rule: cycle.induct)
  case (1 bm f opts n iter i s)
  from "1.prems" show ?case
  proof (cases rule: cycle_cases)
    case (step t)
    from "1.IH"[OF step] show ?thesis by simp
  qed simp_all
qed

lemma sumsq_0: "sumsq 0 d = Num 0"
  by (simp add: sumsq_def)

lemma positive_norm_dim: "js_gt (js_sqrt (sumsq n d)) (Num 0) \<Longrightarrow> n \<noteq> 0"
  by (cases "n = 0") (auto simp: sumsq_0 js_gt_def)

text \<open>The ways through the body of the outer loop.\<close>

lemma powell_iteration_cases:
  assumes "powell_iteration bm f opts n iter s = (r, s')"
  obtains
    (inner) x where "cycle bm f opts n iter 0 (reinitialize n iter s) = (Some x, s')"
      "r = Some x"
  | (stuck) s1 where "cycle bm f opts n iter 0 (reinitialize n iter s) = (None, s1)"
      "s' = s1\<lparr>u := tl (u s1)\<rparr>" "r = Some (Point (p s1))"
  | (undef) s1 un where "cycle bm f opts n iter 0 (reinitialize n iter s) = (None, s1)"
      "n \<noteq> 0" "length un = n"
      "line_search bm f opts n (p s1) un = Undefined"
      "s' = log_search iter None Undefined (s1\<lparr>u := tl (u s1) @ [un]\<rparr>)"
      "r = Some NoPoint"
  | (halt) s1 un t where "cycle bm f opts n iter 0 (reinitialize n iter s) = (None, s1)"
      "n \<noteq> 0" "length un = n"
      "line_search bm f opts n (p s1) un = Number t"
      "js_eq t (Num 0) \<or> \<not> js_isFinite t"
      "s' = log_search iter None (Number t) (s1\<lparr>u := tl (u s1) @ [un]\<rparr>)"
      "r = Some (Point (p s1))"
  | (moved) s1 un t e where "cycle bm f opts n iter 0 (reinitialize n iter s) = (None, s1)"
      "n \<noteq> 0" "length un = n"
      "line_search bm f opts n (p s1) un = Number t"
      "\<not> js_eq t (Num 0)" "js_isFinite t"
      "s' = (move opts n t un
               (log_search iter None (Number t) (s1\<lparr>u := tl (u s1) @ [un]\<rparr>)))\<lparr>perr := e\<rparr>"
      "r = None \<or> r = Some (Point (p s'))"
proof (cases "cycle bm f opts n iter 0 (reinitialize n iter s)")
  case (Pair c s1)
  show thesis
  proof (cases c)
    case (Some x)
    with Pair assms have "r = Some x" "s' = s1"
      by (simp_all add: powell_iteration_def Let_def)
    with Pair Some inner show thesis by simp
  next
    case None
    define un0 where "un0 = map (\<lambda>j. js_sub (arr_get (p s1) j)
        (arr_get (map (arr_get (p (reinitialize n iter s))) [0..<n]) j)) [0..<n]"
    define sm where "sm = js_sqrt (sumsq n (arr_get un0))"
    define un where "un = map (\<lambda>j. js_div (arr_get un0 j) sm) [0..<n]"
    define s3 where "s3 = s1\<lparr>u := tl (u s1) @ [un]\<rparr>"
    have body: "(r, s') =
       (if js_gt sm (Num 0) then
          (case line_search bm f opts n (p s3) un of
             Undefined \<Rightarrow> (Some NoPoint, log_search iter None Undefined s3)
           | Number t \<Rightarrow>
               if js_eq t (Num 0) \<or> \<not> js_isFinite t
               then (Some (Point (p s3)), log_search iter None (Number t) s3)
               else
                 (let err = js_sqrt (sumsq n (\<lambda>j. js_mul t (arr_get un j)));
                      s4 = move opts n t un (log_search iter None (Number t) s3)
                  in if js_lt (js_div err (perr s4)) (tol_of opts)
                     then (Some (Point (p s4)), s4)
                     else (None, s4\<lparr>perr := err\<rparr>)))
        else (Some (Point (p (s1\<lparr>u := tl (u s1)\<rparr>))), s1\<lparr>u := tl (u s1)\<rparr>))"
      using assms Pair None
      unfolding powell_iteration_def Let_def un0_def sm_def un_def s3_def
      by (simp cong: if_cong jsval.case_cong)
    have len: "length un = n" by (simp add: un_def)
    have ps3: "p s3 = p s1" by (simp add: s3_def)
    show thesis
    proof (cases "js_gt sm (Num 0)")
      case False
      with body have "s' = s1\<lparr>u := tl (u s1)\<rparr>" "r = Some (Point (p s1))" by simp_all
      with Pair None stuck show thesis by simp
    next
      case True
      then have n0: "n \<noteq> 0" unfolding sm_def by (rule positive_norm_dim)
      show thesis
      proof (cases "line_search bm f opts n (p s3) un")
        case Undefined
        with body True have "s' = log_search iter None Undefined s3" "r = Some NoPoint"
          by simp_all
        with Pair None n0 len Undefined undef[of s1 un] show thesis
          by (simp add: s3_def)
      next
        case (Number t)
        show thesis
        proof (cases "js_eq t (Num 0) \<or> \<not> js_isFinite t")
          case stop: True
          with body True Number
          have "s' = log_search iter None (Number t) s3" "r = Some (Point (p s1))"
            by (simp_all add: ps3)
          with Pair None n0 len Number stop halt[of s1 un t] show thesis
            by (simp add: s3_def)
        next
          case go: False
          define err where "err = js_sqrt (sumsq n (\<lambda>j. js_mul t (arr_get un j)))"
          define s4 where "s4 = move opts n t un (log_search iter None (Number t) s3)"
          have r4: "(r, s') = (if js_lt (js_div err (perr s4)) (tol_of opts)
                     then (Some (Point (p s4)), s4) else (None, s4\<lparr>perr := err\<rparr>))"
            using body True Number go unfolding Let_def err_def s4_def by simp
          have "\<exists>e. s' = s4\<lparr>perr := e\<rparr> \<and> (r = None \<or> r = Some (Point (p s')))"
          proof (cases "js_lt (js_div err (perr s4)) (tol_of opts)")
            case True
            with r4 have "s' = s4\<lparr>perr := perr s4\<rparr>" "r = Some (Point (p s'))" by simp_all
            then show ?thesis by blast
          next
            case False
            with r4 have "s' = s4\<lparr>perr := err\<rparr>" "r = None" by simp_all
            then show ?thesis by blast
          qed
          then obtain e where "s' = s4\<lparr>perr := e\<rparr>" "r = None \<or> r = Some (Point (p s'))"
            by blast
          with Pair None n0 len Number go moved[of s1 un t e] show thesis
            by (simp add: s3_def s4_def)
        qed
      qed
    qed
  qed
qed

text \<open>The outer loop, one iteration at a time.\<close>

lemma powell_loop_unfold:
  "powell_loop bm f opts n mx iter s =
     (if iter + 1 < mx then
        (case powell_iteration bm f opts n (iter + 1) (s\<lparr>rounds := rounds s + 1\<rparr>) of
           (Some r, s') \<Rightarrow> (r, s')
         | (None, s') \<Rightarrow> powell_loop bm f opts n mx (iter + 1) s')
      else (Point (p s), s))"
  by (rule powell_loop.simps)

lemma powell_loop_cases:
  assumes "powell_loop bm f opts n mx iter s = (r, s')"
  obtains
    (over) "\<not> iter + 1 < mx" "r = Point (p s)" "s' = s"
  | (return) "iter + 1 < mx"
      "powell_iteration bm f opts n (iter + 1) (s\<lparr>rounds := rounds s + 1\<rparr>) = (Some r, s')"
  | (again) s1 where "iter + 1 < mx"
      "powell_iteration bm f opts n (iter + 1) (s\<lparr>rounds := rounds s + 1\<rparr>) = (None, s1)"
      "powell_loop bm f opts n mx (iter + 1) s1 = (r, s')"
proof (cases "iter + 1 < mx")
  case False
  then have "powell_loop bm f opts n mx iter s = (Point (p s), s)"
    by (simp add: powell_loop_unfold[of bm f opts n mx iter s])
  then have "(r, s') = (Point (p s), s)" by (rule trans[OF assms[symmetric]])
  then have "r = Point (p s)" "s' = s" by blast+
  with False over show thesis by blast
next
  case True
  obtain c s1 where it:
    "powell_iteration bm f opts n (iter + 1) (s\<lparr>rounds := rounds s + 1\<rparr>) = (c, s1)"
    by (cases "powell_iteration bm f opts n (iter + 1) (s\<lparr>rounds := rounds s + 1\<rparr>)")
  show thesis
  proof (cases c)
    case None
    with True it have "powell_loop bm f opts n mx iter s = powell_loop bm f opts n mx (iter + 1) s1"
      by (simp add: powell_loop_unfold[of bm f opts n mx iter s])
    then have "powell_loop bm f opts n mx (iter + 1) s1 = (r, s')"
      by (rule trans[OF sym assms])
    with True it None again show thesis by blast
  next
    case (Some x)
    with True it have "powell_loop bm f opts n mx iter s = (x, s1)"
      by (simp add: powell_loop_unfold[of bm f opts n mx iter s])
    then have "(x, s1) = (r, s')" by (rule trans[OF sym assms])
    then have "x = r" "s1 = s'" by blast+
    with True it Some return show thesis by blast
  qed
qed

lemma reinitialize_simps [simp]:
  "p (reinitialize n iter s) = p s"
  "perr (reinitialize n iter s) = perr s"
  "points (reinitialize n iter s) = points s"
  "rounds (reinitialize n iter s) = rounds s"
  "searches (reinitialize n iter s) = searches s"
  by (simp_all add: reinitialize_def)

subsection \<open>How often the outer loop runs\<close>

lemma powell_iteration_rounds:
  assumes "powell_iteration bm f opts n iter s = (r, s')"
  shows "rounds s' = rounds s"
  using assms
  by (cases rule: powell_iteration_cases) (auto dest: cycle_frame)

lemma powell_loop_rounds:
  "powell_loop bm f opts n mx iter s = (r, s') \<Longrightarrow>
     int (rounds s') \<le> int (rounds s) + max 0 (mx - 1 - iter)"
proof (induction bm f opts n mx iter s arbitrary: r s' rule: powell_loop.induct)
  case (1 bm f opts n mx iter s)
  from "1.prems" show ?case
  proof (cases rule: powell_loop_cases)
    case over
    then show ?thesis by simp
  next
    case return
    then show ?thesis using powell_iteration_rounds[OF return(2)] by simp
  next
    case (again s1)
    have "rounds s1 = rounds s + 1" using powell_iteration_rounds[OF again(2)] by simp
    moreover have "int (rounds s') \<le> int (rounds s1) + max 0 (mx - 1 - (iter + 1))"
      using "1.IH"[OF again(1) again(2)[symmetric] refl again(3)] .
    ultimately show ?thesis using again(1) by simp
  qed
qed

text \<open>
  Claim C10. The body of the outer loop is entered at most \<open>maxIter - 1\<close> times (never,
  when that is not positive). With \<open>maxIter \<le> 1\<close> the run makes no line search and returns
  the clamped copy of \<open>x0\<close>: result and final state are given by \<open>x0\<close> and the bounds
  alone, whatever the objective and the bracketing are, so the objective is never
  evaluated.
\<close>

theorem outer_loop_iteration_bound:
  "int (rounds (snd (minimizePowell bm f x0 opts))) \<le> max 0 (maxIter_of opts - 1)
   \<and> (maxIter_of opts \<le> 1 \<longrightarrow>
        minimizePowell bm f x0 opts
          = (Point (constrain (bounds_of opts) x0),
             \<lparr>p = constrain (bounds_of opts) x0, u = basis (length x0), perr = Num 0,
              points = [constrain (bounds_of opts) x0], searches = [], rounds = 0\<rparr>)
        \<and> minimizePowell bm f x0 opts = minimizePowell bm' g x0 opts)"
proof -
  have "int (rounds (snd (minimizePowell bm f x0 opts)))
      \<le> int (rounds (powell_init opts x0)) + max 0 (maxIter_of opts - 1 - 0)"
    unfolding minimizePowell_def
    by (rule powell_loop_rounds[of bm f opts "length x0" "maxIter_of opts" 0 "powell_init opts x0"
          "fst (powell_loop bm f opts (length x0) (maxIter_of opts) 0 (powell_init opts x0))"])
       simp
  then have a: "int (rounds (snd (minimizePowell bm f x0 opts))) \<le> max 0 (maxIter_of opts - 1)"
    by (simp add: powell_init_def Let_def)
  have b: "minimizePowell bm f x0 opts
          = (Point (constrain (bounds_of opts) x0),
             \<lparr>p = constrain (bounds_of opts) x0, u = basis (length x0), perr = Num 0,
              points = [constrain (bounds_of opts) x0], searches = [], rounds = 0\<rparr>)"
    if "maxIter_of opts \<le> 1" for bm f
    using that
    by (simp add: minimizePowell_def powell_init_def Let_def
        powell_loop_unfold[of bm f opts "length x0" "maxIter_of opts" 0])
  show ?thesis using a b[of bm f] b[of bm' g] by simp
qed

text \<open>The theorem at \<open>maxIter = 1\<close>, from the point 3 without bounds.\<close>

theorem outer_loop_iteration_bound_witness:
  "maxIter_of (no_options\<lparr>maxIter := Some 1\<rparr>) \<le> 1
   \<and> minimizePowell bracketMinimum_fails neg_square [Num 3] (no_options\<lparr>maxIter := Some 1\<rparr>)
      = (Point [Num 3],
         \<lparr>p = [Num 3], u = [[Num 1]], perr = Num 0, points = [[Num 3]], searches = [],
          rounds = 0\<rparr>)"
proof -
  have m: "maxIter_of (no_options\<lparr>maxIter := Some 1\<rparr>) \<le> 1"
    by (simp add: maxIter_of_def no_options_def)
  show ?thesis
    using outer_loop_iteration_bound[of bracketMinimum_fails neg_square "[Num 3]"
        "no_options\<lparr>maxIter := Some 1\<rparr>" bracketMinimum_fails neg_square] m
    by (simp add: bounds_of_def no_options_def constrain_def basis_def)
qed

subsection \<open>Recorded points\<close>

lemma cycle_points:
  "cycle bm f opts n iter i s = (r, s') \<Longrightarrow>
     set (points s') \<subseteq> set (points s) \<union> range (constrain (bounds_of opts))"
proof (induction bm f opts n iter i s arbitrary: r s' rule: cycle.induct)
  case (1 bm f opts n iter i s)
  from "1.prems" show ?case
  proof (cases rule: cycle_cases)
    case (step t)
    from "1.IH"[OF step] show ?thesis by auto
  qed simp_all
qed

lemma powell_iteration_points:
  assumes "powell_iteration bm f opts n iter s = (r, s')"
  shows "set (points s') \<subseteq> set (points s) \<union> range (constrain (bounds_of opts))"
  using assms
  by (cases rule: powell_iteration_cases) (auto dest!: cycle_points)

lemma powell_loop_points:
  "powell_loop bm f opts n mx iter s = (r, s') \<Longrightarrow>
     set (points s') \<subseteq> set (points s) \<union> range (constrain (bounds_of opts))"
proof (induction bm f opts n mx iter s arbitrary: r s' rule: powell_loop.induct)
  case (1 bm f opts n mx iter s)
  from "1.prems" show ?case
  proof (cases rule: powell_loop_cases)
    case over
    then show ?thesis by simp
  next
    case return
    then show ?thesis using powell_iteration_points[OF return(2)] by simp
  next
    case (again s1)
    have "set (points s1) \<subseteq> set (points s) \<union> range (constrain (bounds_of opts))"
      using powell_iteration_points[OF again(2)] by simp
    moreover have "set (points s') \<subseteq> set (points s1) \<union> range (constrain (bounds_of opts))"
      using "1.IH"[OF again(1) again(2)[symmetric] refl again(3)] .
    ultimately show ?thesis by blast
  qed
qed

lemma minimizePowell_points:
  "set (points (snd (minimizePowell bm f x0 opts))) \<subseteq> range (constrain (bounds_of opts))"
proof -
  have "set (points (snd (minimizePowell bm f x0 opts)))
      \<subseteq> set (points (powell_init opts x0)) \<union> range (constrain (bounds_of opts))"
    unfolding minimizePowell_def
    by (rule powell_loop_points[of bm f opts "length x0" "maxIter_of opts" 0 "powell_init opts x0"
          "fst (powell_loop bm f opts (length x0) (maxIter_of opts) 0 (powell_init opts x0))"])
       simp
  then show ?thesis by (auto simp: powell_init_def Let_def)
qed

text \<open>
  Claim C5, as amended. Every point recorded in the trace \<open>status.points\<close>, the first one
  included, satisfies at each bounded dimension \<open>i\<close> whose coordinate is a number (not
  \<open>NaN\<close>): \<open>point[i] \<le> bounds[i][1]\<close> when that bound is finite, and
  \<open>bounds[i][0] \<le> point[i]\<close> when that bound is finite and not above the upper one.
\<close>

theorem recorded_points_within_bounds:
  assumes "q \<in> set (points (snd (minimizePowell bm f x0 opts)))"
    and "bounds opts = Some bs" and "i < length bs" and "bs ! i = Some (lo, hi)"
    and "arr_get q i \<noteq> NaN"
  shows "(js_isFinite hi \<longrightarrow> js_le (arr_get q i) hi)
       \<and> (js_isFinite lo \<longrightarrow> (js_isFinite hi \<longrightarrow> js_le lo hi) \<longrightarrow> js_le lo (arr_get q i))"
proof -
  have "bounds_of opts = bs" using assms(2) by (simp add: bounds_of_def)
  then obtain x where "q = constrain bs x"
    using minimizePowell_points[of bm f x0 opts] assms(1) by auto
  then show ?thesis using constrain_within[OF assms(3,4), of x] assms(5) by simp
qed

subsection \<open>Runs on concrete inputs\<close>

lemma gs_budget_one:
  "fst (goldenSectionMinimize g lo hi tol 1) = Number (js_mul (Num (1/2)) (js_add hi lo))"
proof -
  have "gs_final g lo hi tol 1 = (gs_init g lo hi)\<lparr>iteration := 1\<rparr>"
    unfolding gs_final_def by (subst gs_loop.simps) (simp add: gs_init_def Let_def)
  then show ?thesis
    by (simp add: goldenSectionMinimize_def Let_def gs_xF_def gs_init_def)
qed

lemmas run_eval = tlimit_of_def bound_def bound_step_def bounds_at_def arr_get_def arr_set_def
  js_eq_def js_gt_def js_sub_def js_max_def js_min_def js_isNaN_def
  minimizeGoldenSection1D_def gs_budget_one line_search_def
  constrain_def constrain_step_def axpy_def sumsq_def basis_def bounds_of_def
  reinitialize_def move_def log_search_def powell_init_def maxIter_of_def
  tol_of_def tol1d_of_def Let_def

lemma run_zero_step:
  "minimizePowell bracketMinimum_fails neg_square [Num 0] (boxed_options (- 1) 1)
     = (Point [Num 0],
        \<lparr>p = [Num 0], u = [[Num 1]], perr = Num 0, points = [[Num 0]],
         searches = [\<lparr>s_iter = 1, s_index = Some 0, s_point = [Num 0], s_dirs = [[Num 1]],
                      s_npoints = 1, s_result = Number (Num 0)\<rparr>],
         rounds = 1\<rparr>)"
  unfolding minimizePowell_def
  apply (subst powell_loop_unfold)
  apply (simp add: boxed_options_def powell_iteration_def cycle.simps run_eval)
  done

lemma run_two_searches:
  "minimizePowell bracketMinimum_fails neg_square [Num 0] (boxed_options (- 1) 3)
     = (Point [Num 1],
        \<lparr>p = [Num 1], u = [[Num 1]], perr = Num 0, points = [[Num 0], [Num 1]],
         searches = [\<lparr>s_iter = 1, s_index = Some 0, s_point = [Num 0], s_dirs = [[Num 1]],
                      s_npoints = 1, s_result = Number (Num 1)\<rparr>,
                     \<lparr>s_iter = 1, s_index = None, s_point = [Num 1], s_dirs = [[Num 1]],
                      s_npoints = 2, s_result = Number (Num 0)\<rparr>],
         rounds = 1\<rparr>)"
  unfolding minimizePowell_def
  apply (subst powell_loop_unfold)
  apply (simp add: boxed_options_def powell_iteration_def cycle.simps run_eval)
  done

lemma run_nan_step:
  "minimizePowell bracketMinimum_fails neg_square [Num 0] no_options
     = (Point [NaN],
        \<lparr>p = [NaN], u = [], perr = Num 0, points = [[Num 0], [NaN]],
         searches = [\<lparr>s_iter = 1, s_index = Some 0, s_point = [Num 0], s_dirs = [[Num 1]],
                      s_npoints = 1, s_result = Number NaN\<rparr>],
         rounds = 1\<rparr>)"
  unfolding minimizePowell_def
  apply (subst powell_loop_unfold)
  apply (simp add: no_options_def bracketMinimum_fails_def powell_iteration_def cycle.simps run_eval)
  done

lemma run_nan_extra:
  "minimizePowell bracketMinimum_fails neg_square [Num 3] (boxed_options 0 4)
     = (Point [Num 2],
        \<lparr>p = [Num 2], u = [[Num (- 1)]], perr = Num 0, points = [[Num 3], [Num 2]],
         searches = [\<lparr>s_iter = 1, s_index = Some 0, s_point = [Num 3], s_dirs = [[Num 1]],
                      s_npoints = 1, s_result = Number (Num (- 1))\<rparr>,
                     \<lparr>s_iter = 1, s_index = None, s_point = [Num 2], s_dirs = [[Num (- 1)]],
                      s_npoints = 2, s_result = Number NaN\<rparr>],
         rounds = 1\<rparr>)"
  unfolding minimizePowell_def
  apply (subst powell_loop_unfold)
  apply (simp add: boxed_options_def bracketMinimum_fails_def powell_iteration_def cycle.simps run_eval)
  done

lemma run_undefined:
  "minimizePowell bracketMinimum_fails (\<lambda>x. NaN) [Num 0] wide_tolerance
     = (NoPoint,
        \<lparr>p = [Num 0], u = [[Num 1]], perr = Num 0, points = [[Num 0]],
         searches = [\<lparr>s_iter = 1, s_index = Some 0, s_point = [Num 0], s_dirs = [[Num 1]],
                      s_npoints = 1, s_result = Undefined\<rparr>],
         rounds = 1\<rparr>)"
  unfolding minimizePowell_def
  apply (subst powell_loop_unfold)
  apply (simp add: wide_tolerance_def powell_iteration_def cycle.simps run_eval
      goldenSectionMinimize_def gs_final_def gs_init_def gs_loop.simps fi_def)
  done

text \<open>The theorem for C5 on the second point of a run in the box from -1 to 3.\<close>

theorem recorded_points_within_bounds_witness:
  "[Num 1] \<in> set (points (snd (minimizePowell bracketMinimum_fails neg_square [Num 0]
       (boxed_options (- 1) 3))))
   \<and> bounds (boxed_options (- 1) 3) = Some [Some (Num (- 1), Num 3)]
   \<and> js_le (Num (- 1)) (arr_get [Num 1] 0) \<and> js_le (arr_get [Num 1] 0) (Num 3)"
proof -
  have m: "[Num 1] \<in> set (points (snd (minimizePowell bracketMinimum_fails neg_square [Num 0]
       (boxed_options (- 1) 3))))"
    by (simp add: run_two_searches)
  have b: "bounds (boxed_options (- 1) 3) = Some [Some (Num (- 1), Num 3)]"
    by (simp add: boxed_options_def)
  show ?thesis
    using recorded_points_within_bounds[OF m b, of 0 "Num (- 1)" "Num 3"] m b
    by (simp add: arr_get_def js_le_def)
qed

text \<open>
  Claim C5 as stated fails: clamping lets \<open>NaN\<close> through, since \<open>Math.max\<close> and
  \<open>Math.min\<close> of \<open>NaN\<close> are \<open>NaN\<close>. From the starting point \<open>[NaN]\<close> with bounds from 0
  to 1 the first recorded point is \<open>[NaN]\<close>, and \<open>0 \<le> NaN\<close> is false. And when the lower
  bound is above the upper one, the upper one wins: with the bounds \<open>[1, 0]\<close> the point 5
  is recorded as 0, below the lower bound.
\<close>

theorem recorded_points_counterexample:
  "points (snd (minimizePowell bracketMinimum_fails neg_square [NaN]
       ((boxed_options 0 1)\<lparr>maxIter := Some 1\<rparr>))) = [[NaN]]
   \<and> bounds ((boxed_options 0 1)\<lparr>maxIter := Some 1\<rparr>) = Some [Some (Num 0, Num 1)]
   \<and> \<not> js_le (Num 0) (arr_get [NaN] 0)
   \<and> points (snd (minimizePowell bracketMinimum_fails neg_square [Num 5]
       ((boxed_options 1 0)\<lparr>maxIter := Some 1\<rparr>))) = [[Num 0]]
   \<and> \<not> js_le (Num 1) (arr_get [Num 0] 0)"
proof -
  have "powell_loop bracketMinimum_fails neg_square opts 1 1 0 s = (Point (p s), s)" for opts s
    by (subst powell_loop_unfold) simp
  then show ?thesis
    by (simp add: minimizePowell_def boxed_options_def run_eval js_le_def)
qed

subsection \<open>The line searches of a run\<close>

text \<open>The trace of recorded points only grows.\<close>

lemma cycle_grows:
  "cycle bm f opts n iter i s = (r, s') \<Longrightarrow> length (points s) \<le> length (points s')"
proof (induction bm f opts n iter i s arbitrary: r s' rule: cycle.induct)
  case (1 bm f opts n iter i s)
  from "1.prems" show ?case
  proof (cases rule: cycle_cases)
    case (step t)
    from "1.IH"[OF step] show ?thesis by simp
  qed simp_all
qed

lemma powell_iteration_grows:
  assumes "powell_iteration bm f opts n iter s = (r, s')"
  shows "length (points s) \<le> length (points s')"
  using assms
  by (cases rule: powell_iteration_cases) (auto dest!: cycle_grows)

lemma powell_loop_grows:
  "powell_loop bm f opts n mx iter s = (r, s') \<Longrightarrow> length (points s) \<le> length (points s')"
proof (induction bm f opts n mx iter s arbitrary: r s' rule: powell_loop.induct)
  case (1 bm f opts n mx iter s)
  from "1.prems" show ?case
  proof (cases rule: powell_loop_cases)
    case over
    then show ?thesis by simp
  next
    case return
    then show ?thesis using powell_iteration_grows[OF return(2)] by simp
  next
    case (again s1)
    have "length (points s) \<le> length (points s1)"
      using powell_iteration_grows[OF again(2)] by simp
    moreover have "length (points s1) \<le> length (points s')"
      using "1.IH"[OF again(1) again(2)[symmetric] refl again(3)] .
    ultimately show ?thesis by simp
  qed
qed

text \<open>
  What a cycle adds to the line searches: all in the same iteration, with the direction
  set of the cycle; a stopping search is the last one and decides the result; after any
  other search a point is recorded.
\<close>

lemma cycle_searches:
  "cycle bm f opts n iter i s = (r, s') \<Longrightarrow>
     \<exists>es. searches s' = searches s @ es
       \<and> (\<forall>e\<in>set es. s_iter e = iter \<and> s_dirs e = u s \<and> s_index e \<noteq> None)
       \<and> (\<forall>e\<in>set es. stopping e \<longrightarrow>
             r = Some (verdict e) \<and> e = last es \<and> p s' = s_point e
             \<and> length (points s') = s_npoints e)
       \<and> (\<forall>e\<in>set es. \<not> stopping e \<longrightarrow> s_npoints e < length (points s'))"
proof (induction bm f opts n iter i s arbitrary: r s' rule: cycle.induct)
  case (1 bm f opts n iter i s)
  from "1.prems" show ?case
  proof (cases rule: cycle_cases)
    case over
    then show ?thesis by simp
  next
    case missing
    then show ?thesis by simp
  next
    case failed
    then show ?thesis by (simp add: verdict_def stopping_def)
  next
    case zero
    then show ?thesis by (simp add: verdict_def stopping_def js_eq_def)
  next
    case (step t)
    define e0 where "e0 = \<lparr>s_iter = iter, s_index = Some i, s_point = p s, s_dirs = u s,
      s_npoints = length (points s), s_result = Number t\<rparr>"
    from "1.IH"[OF step] obtain es where
      es: "searches s' = (searches s @ [e0]) @ es"
      and dirs: "\<forall>e\<in>set es. s_iter e = iter \<and> s_dirs e = u s \<and> s_index e \<noteq> None"
      and stop: "\<forall>e\<in>set es. stopping e \<longrightarrow>
             r = Some (verdict e) \<and> e = last es \<and> p s' = s_point e
             \<and> length (points s') = s_npoints e"
      and go: "\<forall>e\<in>set es. \<not> stopping e \<longrightarrow> s_npoints e < length (points s')"
      by (auto simp: e0_def)
    have e0: "\<not> stopping e0" "s_iter e0 = iter" "s_dirs e0 = u s" "s_index e0 \<noteq> None"
      using step(4) by (simp_all add: e0_def stopping_def)
    have "s_npoints e0 < length (points s')"
      using cycle_grows[OF step(5)] by (simp add: e0_def)
    then have go0: "\<forall>e\<in>set (e0 # es). \<not> stopping e \<longrightarrow> s_npoints e < length (points s')"
      using go by simp
    have "searches s' = searches s @ (e0 # es)" using es by simp
    moreover have "\<forall>e\<in>set (e0 # es). s_iter e = iter \<and> s_dirs e = u s \<and> s_index e \<noteq> None"
      using dirs e0 by simp
    moreover have "\<forall>e\<in>set (e0 # es). stopping e \<longrightarrow>
             r = Some (verdict e) \<and> e = last (e0 # es) \<and> p s' = s_point e
             \<and> length (points s') = s_npoints e"
      using stop e0(1) by auto
    ultimately show ?thesis using go0 by blast
  qed
qed

lemma cycle_no_type_error:
  "cycle bm f opts n iter i s = (r, s') \<Longrightarrow> length (u s) = n \<Longrightarrow> r \<noteq> Some TypeError"
proof (induction bm f opts n iter i s arbitrary: r s' rule: cycle.induct)
  case (1 bm f opts n iter i s)
  from "1.prems"(1) show ?case
  proof (cases rule: cycle_cases)
    case (step t)
    from "1.IH"[OF step] "1.prems"(2) show ?thesis by simp
  next
    case missing
    then show ?thesis using "1.prems"(2) by simp
  qed simp_all
qed

lemma length_basis: "length (basis n) = n"
  by (simp add: basis_def)

lemma reinitialize_dirs:
  "length (u s) = n \<Longrightarrow> length (u (reinitialize n iter s)) = n"
  "n \<noteq> 0 \<Longrightarrow> iter mod int n = 0 \<Longrightarrow> u (reinitialize n iter s) = basis n"
  by (simp_all add: reinitialize_def length_basis)

lemma powell_iteration_searches:
  assumes "powell_iteration bm f opts n iter s = (r, s')" and "length (u s) = n"
  shows "\<exists>es. searches s' = searches s @ es
       \<and> (\<forall>e\<in>set es. s_iter e = iter \<and> dirs_ok n e)
       \<and> (\<forall>e\<in>set es. stopping e \<longrightarrow>
             r = Some (verdict e) \<and> e = last es \<and> p s' = s_point e
             \<and> length (points s') = s_npoints e)
       \<and> (\<forall>e\<in>set es. \<not> stopping e \<longrightarrow> s_npoints e < length (points s'))
       \<and> (r = None \<longrightarrow> length (u s') = n)
       \<and> r \<noteq> Some TypeError"
proof -
  let ?s0 = "reinitialize n iter s"
  have len0: "length (u ?s0) = n" using assms(2) by (rule reinitialize_dirs)
  have ok0: "length ds = n \<and> (n = 0 \<or> iter mod int n \<noteq> 0 \<or> ds = basis n)" if "ds = u ?s0" for ds
  proof (cases "n \<noteq> 0 \<and> iter mod int n = 0")
    case True
    then have "u ?s0 = basis n" by (simp add: reinitialize_def)
    with that len0 show ?thesis by simp
  next
    case False
    with that len0 show ?thesis by auto
  qed
  have cyc: "\<exists>es. searches s1 = searches s @ es
       \<and> (\<forall>e\<in>set es. s_iter e = iter \<and> dirs_ok n e)
       \<and> (\<forall>e\<in>set es. stopping e \<longrightarrow>
             c = Some (verdict e) \<and> e = last es \<and> p s1 = s_point e
             \<and> length (points s1) = s_npoints e)
       \<and> (\<forall>e\<in>set es. \<not> stopping e \<longrightarrow> s_npoints e < length (points s1))
       \<and> u s1 = u ?s0 \<and> c \<noteq> Some TypeError"
    if "cycle bm f opts n iter 0 ?s0 = (c, s1)" for c s1
  proof -
    from cycle_searches[OF that] obtain es where
      es: "searches s1 = searches s @ es"
      and dirs: "\<forall>e\<in>set es. s_iter e = iter \<and> s_dirs e = u ?s0 \<and> s_index e \<noteq> None"
      and stop: "\<forall>e\<in>set es. stopping e \<longrightarrow>
             c = Some (verdict e) \<and> e = last es \<and> p s1 = s_point e
             \<and> length (points s1) = s_npoints e"
      and go: "\<forall>e\<in>set es. \<not> stopping e \<longrightarrow> s_npoints e < length (points s1)"
      by auto
    have "\<forall>e\<in>set es. s_iter e = iter \<and> dirs_ok n e"
    proof
      fix e assume "e \<in> set es"
      with dirs have d: "s_iter e = iter" "s_dirs e = u ?s0" by simp_all
      from ok0[OF d(2)] d(1) show "s_iter e = iter \<and> dirs_ok n e"
        by (cases "n = 0") (auto simp: dirs_ok_def basis_def)
    qed
    with es stop go cycle_frame[OF that] cycle_no_type_error[OF that len0] show ?thesis by blast
  qed
  from assms(1) show ?thesis
  proof (cases rule: powell_iteration_cases)
    case (inner x)
    from cyc[OF inner(1)] inner(2) show ?thesis by auto
  next
    case (stuck s1)
    from cyc[OF stuck(1)] obtain es where
      es: "searches s1 = searches s @ es"
      and ok: "\<forall>e\<in>set es. s_iter e = iter \<and> dirs_ok n e"
      and ns: "\<forall>e\<in>set es. \<not> stopping e"
      and go: "\<forall>e\<in>set es. s_npoints e < length (points s1)"
      by auto
    show ?thesis using es ok ns go stuck(2,3) by auto
  next
    case (undef s1 un)
    from cyc[OF undef(1)] obtain es where
      es: "searches s1 = searches s @ es"
      and ok: "\<forall>e\<in>set es. s_iter e = iter \<and> dirs_ok n e"
      and ns: "\<forall>e\<in>set es. \<not> stopping e"
      and go: "\<forall>e\<in>set es. s_npoints e < length (points s1)"
      and us: "u s1 = u ?s0"
      by auto
    define ex where "ex = \<lparr>s_iter = iter, s_index = None, s_point = p s1,
      s_dirs = tl (u s1) @ [un], s_npoints = length (points s1), s_result = Undefined\<rparr>"
    have "searches s' = searches s @ (es @ [ex])" using undef(5) es by (simp add: ex_def)
    moreover have "s_iter ex = iter" "dirs_ok n ex"
      using undef(2,3) us len0 by (simp_all add: ex_def dirs_ok_def)
    moreover have "verdict ex = NoPoint" "p s' = s_point ex" "length (points s') = s_npoints ex"
      using undef(5) by (simp_all add: ex_def verdict_def)
    moreover have "length (points s') = length (points s1)" using undef(5) by simp
    moreover have "stopping ex" by (simp add: ex_def stopping_def)
    ultimately show ?thesis using ok ns go undef(6) by auto
  next
    case (halt s1 un t)
    from cyc[OF halt(1)] obtain es where
      es: "searches s1 = searches s @ es"
      and ok: "\<forall>e\<in>set es. s_iter e = iter \<and> dirs_ok n e"
      and ns: "\<forall>e\<in>set es. \<not> stopping e"
      and go: "\<forall>e\<in>set es. s_npoints e < length (points s1)"
      and us: "u s1 = u ?s0"
      by auto
    define ex where "ex = \<lparr>s_iter = iter, s_index = None, s_point = p s1,
      s_dirs = tl (u s1) @ [un], s_npoints = length (points s1), s_result = Number t\<rparr>"
    have "searches s' = searches s @ (es @ [ex])" using halt(6) es by (simp add: ex_def)
    moreover have "s_iter ex = iter" "dirs_ok n ex"
      using halt(2,3) us len0 by (simp_all add: ex_def dirs_ok_def)
    moreover have "verdict ex = Point (p s1)" "p s' = s_point ex"
        "length (points s') = s_npoints ex"
      using halt(6) by (simp_all add: ex_def verdict_def)
    moreover have "length (points s') = length (points s1)" using halt(6) by simp
    moreover have "stopping ex" using halt(5) by (simp add: ex_def stopping_def)
    ultimately show ?thesis using ok ns go halt(7) by auto
  next
    case (moved s1 un t e)
    from cyc[OF moved(1)] obtain es where
      es: "searches s1 = searches s @ es"
      and ok: "\<forall>e\<in>set es. s_iter e = iter \<and> dirs_ok n e"
      and ns: "\<forall>e\<in>set es. \<not> stopping e"
      and go: "\<forall>e\<in>set es. s_npoints e < length (points s1)"
      and us: "u s1 = u ?s0"
      by auto
    define ex where "ex = \<lparr>s_iter = iter, s_index = None, s_point = p s1,
      s_dirs = tl (u s1) @ [un], s_npoints = length (points s1), s_result = Number t\<rparr>"
    have "searches s' = searches s @ (es @ [ex])" using moved(7) es by (simp add: ex_def)
    moreover have "s_iter ex = iter" "dirs_ok n ex" "\<not> stopping ex"
      using moved(2,3,5,6) us len0 by (simp_all add: ex_def dirs_ok_def stopping_def)
    moreover have "length (u s') = n" using moved(2,7) us len0 by simp
    moreover have "length (points s') = length (points s1) + 1" "s_npoints ex = length (points s1)"
      using moved(7) by (simp_all add: ex_def)
    moreover have "\<forall>e\<in>set es. s_npoints e < length (points s1) + 1" using go by auto
    ultimately show ?thesis using ok ns moved(8) by auto
  qed
qed

lemma powell_loop_searches:
  "powell_loop bm f opts n mx iter s = (r, s') \<Longrightarrow> length (u s) = n \<Longrightarrow>
     \<exists>es. searches s' = searches s @ es
       \<and> (\<forall>e\<in>set es. dirs_ok n e)
       \<and> (\<forall>e\<in>set es. stopping e \<longrightarrow>
             r = verdict e \<and> e = last es \<and> p s' = s_point e
             \<and> length (points s') = s_npoints e)
       \<and> (\<forall>e\<in>set es. \<not> stopping e \<longrightarrow> s_npoints e < length (points s'))
       \<and> r \<noteq> TypeError"
proof (induction bm f opts n mx iter s arbitrary: r s' rule: powell_loop.induct)
  case (1 bm f opts n mx iter s)
  let ?s = "s\<lparr>rounds := rounds s + 1\<rparr>"
  have len: "length (u ?s) = n" using "1.prems"(2) by simp
  from "1.prems"(1) show ?case
  proof (cases rule: powell_loop_cases)
    case over
    then show ?thesis by simp
  next
    case return
    from powell_iteration_searches[OF return(2) len] show ?thesis by auto
  next
    case (again s1)
    from powell_iteration_searches[OF again(2) len] obtain es1 where
      es1: "searches s1 = searches s @ es1"
      and ok1: "\<forall>e\<in>set es1. dirs_ok n e"
      and ns1: "\<forall>e\<in>set es1. \<not> stopping e"
      and go1: "\<forall>e\<in>set es1. s_npoints e < length (points s1)"
      and len1: "length (u s1) = n"
      by auto
    from "1.IH"[OF again(1) again(2)[symmetric] refl again(3) len1] obtain es2 where
      es2: "searches s' = searches s1 @ es2"
      and ok2: "\<forall>e\<in>set es2. dirs_ok n e"
      and st2: "\<forall>e\<in>set es2. stopping e \<longrightarrow>
             r = verdict e \<and> e = last es2 \<and> p s' = s_point e
             \<and> length (points s') = s_npoints e"
      and go2: "\<forall>e\<in>set es2. \<not> stopping e \<longrightarrow> s_npoints e < length (points s')"
      and nt: "r \<noteq> TypeError"
      by auto
    have "length (points s1) \<le> length (points s')" using powell_loop_grows[OF again(3)] .
    then have go: "\<forall>e\<in>set (es1 @ es2). \<not> stopping e \<longrightarrow> s_npoints e < length (points s')"
      using go1 go2 by fastforce
    have "searches s' = searches s @ (es1 @ es2)" using es1 es2 by simp
    moreover have "\<forall>e\<in>set (es1 @ es2). dirs_ok n e" using ok1 ok2 by auto
    moreover have "\<forall>e\<in>set (es1 @ es2). stopping e \<longrightarrow>
             r = verdict e \<and> e = last (es1 @ es2) \<and> p s' = s_point e
             \<and> length (points s') = s_npoints e"
    proof (intro ballI impI)
      fix e assume e: "e \<in> set (es1 @ es2)" "stopping e"
      then have in2: "e \<in> set es2" using ns1 by auto
      then have "es2 \<noteq> []" by auto
      then have "last (es1 @ es2) = last es2" by simp
      with st2 in2 e(2) show "r = verdict e \<and> e = last (es1 @ es2) \<and> p s' = s_point e
             \<and> length (points s') = s_npoints e"
        by simp
    qed
    ultimately show ?thesis using nt go by blast
  qed
qed

lemma minimizePowell_searches:
  "(\<forall>e\<in>set (searches (snd (minimizePowell bm f x0 opts))). dirs_ok (length x0) e)
   \<and> (\<forall>e\<in>set (searches (snd (minimizePowell bm f x0 opts))). stopping e \<longrightarrow>
         fst (minimizePowell bm f x0 opts) = verdict e
         \<and> e = last (searches (snd (minimizePowell bm f x0 opts)))
         \<and> p (snd (minimizePowell bm f x0 opts)) = s_point e
         \<and> length (points (snd (minimizePowell bm f x0 opts))) = s_npoints e)
   \<and> (\<forall>e\<in>set (searches (snd (minimizePowell bm f x0 opts))). \<not> stopping e \<longrightarrow>
         s_npoints e < length (points (snd (minimizePowell bm f x0 opts))))
   \<and> fst (minimizePowell bm f x0 opts) \<noteq> TypeError"
proof -
  have len: "length (u (powell_init opts x0)) = length x0"
    by (simp add: powell_init_def Let_def length_basis)
  have nil: "searches (powell_init opts x0) = []"
    by (simp add: powell_init_def Let_def)
  have run: "powell_loop bm f opts (length x0) (maxIter_of opts) 0 (powell_init opts x0)
     = (fst (minimizePowell bm f x0 opts), snd (minimizePowell bm f x0 opts))"
    by (simp add: minimizePowell_def)
  from powell_loop_searches[OF run len] show ?thesis by (simp add: nil)
qed

text \<open>
  Claim C6. In every run with \<open>n = x0.length \<ge> 1\<close> the direction set holds exactly \<open>n\<close>
  directions at the start of each line search, so that no direction is ever missing; and
  in an outer iteration whose number is a multiple of \<open>n\<close> the direction set is the
  standard basis from the start, at every line search of its cycle.
\<close>

theorem direction_set_size_and_reset:
  assumes "0 < length x0"
  shows "fst (minimizePowell bm f x0 opts) \<noteq> TypeError
     \<and> (\<forall>e\<in>set (searches (snd (minimizePowell bm f x0 opts))).
           length (s_dirs e) = length x0
           \<and> (s_index e \<noteq> None \<and> s_iter e mod int (length x0) = 0
                \<longrightarrow> s_dirs e = basis (length x0)))"
  using minimizePowell_searches[of bm f x0 opts] by (auto simp: dirs_ok_def)

text \<open>The theorem on a run in one dimension with two line searches.\<close>

theorem direction_set_size_and_reset_witness:
  "0 < length [Num 0]
   \<and> map s_dirs (searches (snd (minimizePowell bracketMinimum_fails neg_square [Num 0]
         (boxed_options (- 1) 3)))) = [basis 1, basis 1]
   \<and> map s_iter (searches (snd (minimizePowell bracketMinimum_fails neg_square [Num 0]
         (boxed_options (- 1) 3)))) = [1, 1]"
  using direction_set_size_and_reset[of "[Num 0]" bracketMinimum_fails neg_square
      "boxed_options (- 1) 3"]
  by (simp add: run_two_searches basis_def)

text \<open>
  Claim C7. If a line search in the cycle over the direction set returns a step that is
  exactly 0, the run returns the point at which that search started: the search is the
  last one of the run, the solution vector is unchanged, and no point is recorded after
  it. The test is exact: after a search in the cycle that returns any other number,
  however small, the run goes on and records a point.
\<close>

theorem zero_step_returns_current_point:
  assumes "e \<in> set (searches (snd (minimizePowell bm f x0 opts)))"
    and "s_index e \<noteq> None"
  shows "(s_result e = Number (Num 0) \<longrightarrow>
            fst (minimizePowell bm f x0 opts) = Point (s_point e)
            \<and> e = last (searches (snd (minimizePowell bm f x0 opts)))
            \<and> p (snd (minimizePowell bm f x0 opts)) = s_point e
            \<and> length (points (snd (minimizePowell bm f x0 opts))) = s_npoints e)
       \<and> (s_result e = Number t \<and> t \<noteq> Num 0 \<longrightarrow>
            s_npoints e < length (points (snd (minimizePowell bm f x0 opts))))"
proof -
  have a: "stopping e \<and> verdict e = Point (s_point e)" if "s_result e = Number (Num 0)"
    using that by (simp add: stopping_def verdict_def js_eq_def)
  have b: "\<not> stopping e" if "s_result e = Number t" "t \<noteq> Num 0"
    using that assms(2) by (simp add: stopping_def js_eq_def)
  show ?thesis using minimizePowell_searches[of bm f x0 opts] assms(1) a b by auto
qed

text \<open>The theorem on a run whose first line search returns the step 0, and on a run
  whose first line search returns the step 1.\<close>

theorem zero_step_returns_current_point_witness:
  "\<lparr>s_iter = 1, s_index = Some 0, s_point = [Num 0], s_dirs = [[Num 1]], s_npoints = 1,
     s_result = Number (Num 0)\<rparr>
     \<in> set (searches (snd (minimizePowell bracketMinimum_fails neg_square [Num 0]
           (boxed_options (- 1) 1))))
   \<and> fst (minimizePowell bracketMinimum_fails neg_square [Num 0] (boxed_options (- 1) 1))
       = Point [Num 0]
   \<and> points (snd (minimizePowell bracketMinimum_fails neg_square [Num 0] (boxed_options (- 1) 1)))
       = [[Num 0]]
   \<and> \<lparr>s_iter = 1, s_index = Some 0, s_point = [Num 0], s_dirs = [[Num 1]], s_npoints = 1,
       s_result = Number (Num 1)\<rparr>
     \<in> set (searches (snd (minimizePowell bracketMinimum_fails neg_square [Num 0]
           (boxed_options (- 1) 3))))
   \<and> points (snd (minimizePowell bracketMinimum_fails neg_square [Num 0] (boxed_options (- 1) 3)))
       = [[Num 0], [Num 1]]"
proof -
  have m: "\<lparr>s_iter = 1, s_index = Some 0, s_point = [Num 0], s_dirs = [[Num 1]], s_npoints = 1,
     s_result = Number (Num 0)\<rparr>
     \<in> set (searches (snd (minimizePowell bracketMinimum_fails neg_square [Num 0]
           (boxed_options (- 1) 1))))"
    by (simp add: run_zero_step)
  have m2: "\<lparr>s_iter = 1, s_index = Some 0, s_point = [Num 0], s_dirs = [[Num 1]], s_npoints = 1,
       s_result = Number (Num 1)\<rparr>
     \<in> set (searches (snd (minimizePowell bracketMinimum_fails neg_square [Num 0]
           (boxed_options (- 1) 3))))"
    by (simp add: run_two_searches)
  show ?thesis
    using zero_step_returns_current_point[OF m, of "Num 0"]
      zero_step_returns_current_point[OF m2, of "Num 1"] m m2
    by (simp add: run_zero_step run_two_searches)
qed

text \<open>
  Claim C2, as amended. When a line search returns \<open>undefined\<close>, \<open>minimizePowell\<close>
  returns \<open>undefined\<close> and makes no further search. When the extra search along the new
  direction returns a step that is not finite, as \<open>minimizeGoldenSection1D\<close> does with
  \<open>NaN\<close> after a failed bracketing, \<open>minimizePowell\<close> returns the current point, which
  that search has not changed.
\<close>

theorem failed_line_search_outcome:
  assumes "e \<in> set (searches (snd (minimizePowell bm f x0 opts)))"
  shows "(s_result e = Undefined \<longrightarrow>
            fst (minimizePowell bm f x0 opts) = NoPoint
            \<and> e = last (searches (snd (minimizePowell bm f x0 opts))))
       \<and> (s_index e = None \<and> s_result e = Number t \<and> \<not> js_isFinite t \<longrightarrow>
            fst (minimizePowell bm f x0 opts) = Point (s_point e)
            \<and> e = last (searches (snd (minimizePowell bm f x0 opts)))
            \<and> p (snd (minimizePowell bm f x0 opts)) = s_point e)"
proof -
  have a: "stopping e \<and> verdict e = NoPoint" if "s_result e = Undefined"
    using that by (simp add: stopping_def verdict_def)
  have b: "stopping e \<and> verdict e = Point (s_point e)"
    if "s_index e = None" "s_result e = Number t" "\<not> js_isFinite t"
    using that by (simp add: stopping_def verdict_def)
  show ?thesis using minimizePowell_searches[of bm f x0 opts] assms a b by auto
qed

text \<open>The theorem on a run whose objective is \<open>NaN\<close> everywhere, and on a run whose
  extra search fails to bracket.\<close>

theorem failed_line_search_outcome_witness:
  "\<lparr>s_iter = 1, s_index = Some 0, s_point = [Num 0], s_dirs = [[Num 1]], s_npoints = 1,
     s_result = Undefined\<rparr>
     \<in> set (searches (snd (minimizePowell bracketMinimum_fails (\<lambda>x. NaN) [Num 0] wide_tolerance)))
   \<and> fst (minimizePowell bracketMinimum_fails (\<lambda>x. NaN) [Num 0] wide_tolerance) = NoPoint
   \<and> \<lparr>s_iter = 1, s_index = None, s_point = [Num 2], s_dirs = [[Num (- 1)]], s_npoints = 2,
       s_result = Number NaN\<rparr>
     \<in> set (searches (snd (minimizePowell bracketMinimum_fails neg_square [Num 3]
           (boxed_options 0 4))))
   \<and> fst (minimizePowell bracketMinimum_fails neg_square [Num 3] (boxed_options 0 4))
       = Point [Num 2]"
proof -
  have m1: "\<lparr>s_iter = 1, s_index = Some 0, s_point = [Num 0], s_dirs = [[Num 1]], s_npoints = 1,
     s_result = Undefined\<rparr>
     \<in> set (searches (snd (minimizePowell bracketMinimum_fails (\<lambda>x. NaN) [Num 0] wide_tolerance)))"
    by (simp add: run_undefined)
  have m2: "\<lparr>s_iter = 1, s_index = None, s_point = [Num 2], s_dirs = [[Num (- 1)]], s_npoints = 2,
       s_result = Number NaN\<rparr>
     \<in> set (searches (snd (minimizePowell bracketMinimum_fails neg_square [Num 3]
           (boxed_options 0 4))))"
    by (simp add: run_nan_extra)
  show ?thesis
    using failed_line_search_outcome[OF m1, of NaN] failed_line_search_outcome[OF m2, of NaN] m1 m2
    by simp
qed

text \<open>
  Claim C2 as stated fails. Without bounds the first line search has to bracket; when
  bracketing fails, \<open>minimizeGoldenSection1D\<close> returns \<open>NaN\<close>, which is neither
  \<open>undefined\<close> nor 0, the step is added to the point, and \<open>minimizePowell\<close> returns the
  vector \<open>[NaN]\<close>. And in the run from the point 3 with bounds from 0 to 4 it is the extra
  search that fails to bracket, and \<open>minimizePowell\<close> returns the point \<open>[2]\<close>.
\<close>

theorem failed_line_search_counterexample:
  "line_search bracketMinimum_fails neg_square no_options 1 [Num 0] [Num 1] = Number NaN
   \<and> fst (minimizePowell bracketMinimum_fails neg_square [Num 0] no_options) = Point [NaN]
   \<and> line_search bracketMinimum_fails neg_square (boxed_options 0 4) 1 [Num 2] [Num (- 1)]
       = Number NaN
   \<and> fst (minimizePowell bracketMinimum_fails neg_square [Num 3] (boxed_options 0 4))
       = Point [Num 2]"
proof -
  have "line_search bracketMinimum_fails neg_square no_options 1 [Num 0] [Num 1] = Number NaN"
    by (simp add: no_options_def bracketMinimum_fails_def run_eval)
  moreover
  have "line_search bracketMinimum_fails neg_square (boxed_options 0 4) 1 [Num 2] [Num (- 1)]
       = Number NaN"
    by (simp add: boxed_options_def bracketMinimum_fails_def run_eval)
  ultimately show ?thesis by (simp add: run_nan_step run_nan_extra)
qed

subsection \<open>The step interval\<close>

lemma bound_negative_direction:
  "bound 1 [Some (Num 0, Num 4)] [Num 2] [Num (- 1)] = (NInf, PInf)"
  by (simp add: run_eval)

lemma feasible_negative_direction:
  "feasible_step 1 [Some (Num 0, Num 4)] [Num 2] [Num (- 1)] (Num t) = (- 2 \<le> t \<and> t \<le> 2)"
  by (auto simp: feasible_step_def run_eval js_le_def)

text \<open>
  Claim C1 asks that the interval computed by \<open>bound\<close> be the intersection of the feasible
  step ranges of all dimensions, also for a direction with a negative component. The code
  does not compute it there. In the run from the point 3 with bounds from 0 to 4 (see
  \<open>run_nan_extra\<close>) the extra line search starts at the point 2 along the direction -1:
  the feasible steps are those from -2 to 2, and \<open>bound\<close> returns the whole line.
\<close>

theorem bound_negative_direction_unbounded:
  "bound 1 [Some (Num 0, Num 4)] [Num 2] [Num (- 1)] = (NInf, PInf)
   \<and> (\<forall>t. feasible_step 1 [Some (Num 0, Num 4)] [Num 2] [Num (- 1)] (Num t)
          = (- 2 \<le> t \<and> t \<le> 2))"
  using bound_negative_direction feasible_negative_direction by simp

end
